theory Spec2Isabelle
  imports Main "HOL-Library.Sublist"
begin

unbundle bit_operations_syntax

section \<open>JavaScript strings and numbers, as far as \<open>lib/ftp.js\<close> uses them\<close>

text \<open>
  A JavaScript string is a sequence of UTF-16 code units; a code unit is modelled by its
  number. \<open>js\<close> turns an ASCII literal into such a string.
\<close>

type_synonym jsstring = "nat list"

definition js :: "string \<Rightarrow> jsstring" where
  "js s = map of_char s"

definition CRLF :: jsstring where
  "CRLF = [13, 10]"

text \<open>
  The numbers the module computes with are the results of \<open>parseInt\<close>: \<open>NaN\<close>, an
  infinity (a digit string beyond the range of a double; the flag is the sign, \<open>True\<close> for
  negative) or an integer-valued double. \<open>-0\<close> is identified with \<open>0\<close>: no operation the
  module applies to a number (\<open>===\<close>, \<open>>=\<close>, \<open><\<close>, \<open>>\<close>, \<open>&\<close>, truthiness) tells them apart.
\<close>

datatype jsnum = NaN | Infinity bool | Num int

text \<open>White space as \<open>String.prototype.trim\<close> and \<open>parseInt\<close> skip it: the code points
  of \<open>WhiteSpace\<close> and \<open>LineTerminator\<close> of ECMAScript.\<close>

definition is_ws :: "nat \<Rightarrow> bool" where
  "is_ws c \<longleftrightarrow> c \<in> {9, 10, 11, 12, 13, 32, 160, 5760, 8232, 8233, 8239, 8287, 12288, 65279}
     \<or> (8192 \<le> c \<and> c \<le> 8202)"

definition trim :: "jsstring \<Rightarrow> jsstring" where
  "trim s = rev (dropWhile is_ws (rev (dropWhile is_ws s)))"

text \<open>\<open>s.substr(start, len)\<close> for the non-negative arguments the module passes.\<close>

definition substr :: "jsstring \<Rightarrow> nat \<Rightarrow> nat \<Rightarrow> jsstring" where
  "substr s start len = take len (drop start s)"

text \<open>\<open>s.indexOf(sub)\<close>: the first position where \<open>sub\<close> occurs, or \<open>-1\<close>.\<close>

fun indexOf_from :: "jsstring \<Rightarrow> jsstring \<Rightarrow> nat \<Rightarrow> int" where
  "indexOf_from [] sub i = (if sub = [] then int i else - 1)"
| "indexOf_from (x # xs) sub i =
     (if take (length sub) (x # xs) = sub then int i else indexOf_from xs sub (Suc i))"

definition indexOf :: "jsstring \<Rightarrow> jsstring \<Rightarrow> int" where
  "indexOf s sub = indexOf_from s sub 0"

subsection \<open>\<open>parseInt(s, 10)\<close>\<close>

definition is_digit :: "nat \<Rightarrow> bool" where
  "is_digit c \<longleftrightarrow> 48 \<le> c \<and> c \<le> 57"

definition digits_value :: "jsstring \<Rightarrow> int" where
  "digits_value ds = foldl (\<lambda>acc d. acc * 10 + (int d - 48)) 0 ds"

text \<open>The number of binary digits of a non-negative integer.\<close>

function bit_length :: "int \<Rightarrow> nat" where
  "bit_length n = (if n \<le> 0 then 0 else Suc (bit_length (n div 2)))"
  by pat_completeness auto
termination
  by (relation "measure nat") auto

declare bit_length.simps [simp del]

text \<open>
  The double nearest to an integer (ties to even, overflow to infinity): exact up to 53
  bits, and a multiple of \<open>2 ^ (bits - 53)\<close> beyond. This is the number \<open>parseInt\<close> returns
  for a digit string in V8; ECMAScript lets an implementation approximate beyond 20
  significant digits.
\<close>

definition to_double :: "int \<Rightarrow> jsnum" where
  "to_double n =
     (let a = \<bar>n\<bar>; k = bit_length a in
      if k \<le> 53 then Num n
      else
        let e = k - 53;
            q = a div 2 ^ e;
            r = a mod 2 ^ e;
            h = 2 ^ (e - 1);
            q' = (if h < r \<or> (r = h \<and> odd q) then q + 1 else q);
            v = q' * 2 ^ e
        in if 2 ^ 1024 \<le> v then Infinity (n < 0) else Num (sgn n * v))"

text \<open>
  \<open>parseInt(s, 10)\<close>: skip leading white space, read an optional sign, read the longest
  run of decimal digits; \<open>NaN\<close> when there is none.
\<close>

definition parseInt :: "jsstring \<Rightarrow> jsnum" where
  "parseInt s =
     (let s1 = dropWhile is_ws s;
          neg = (case s1 of [] \<Rightarrow> False | c # _ \<Rightarrow> c = 45);
          s2 = (case s1 of [] \<Rightarrow> [] | c # r \<Rightarrow> if c = 45 \<or> c = 43 then r else s1);
          ds = takeWhile is_digit s2
      in if ds = [] then NaN
         else to_double (if neg then - digits_value ds else digits_value ds))"

text \<open>\<open>ToInt32\<close>, which \<open>&\<close> applies to both operands, and \<open>x & 255\<close>.\<close>

definition ToInt32 :: "jsnum \<Rightarrow> int" where
  "ToInt32 x =
     (case x of
        NaN \<Rightarrow> 0
      | Infinity _ \<Rightarrow> 0
      | Num n \<Rightarrow> (let m = n mod 2 ^ 32 in if 2 ^ 31 \<le> m then m - 2 ^ 32 else m))"

definition and255 :: "jsnum \<Rightarrow> int" where
  "and255 x = ToInt32 x AND 255"

section \<open>The PASV response parser\<close>

text \<open>
  \<open>regexPasv = /([-\d]+,[-\d]+,[-\d]+,[-\d]+),([-\d]+),([-\d]+)/\<close>. The matcher below is
  the backtracking matcher of this expression: \<open>cls_plus\<close> is the greedy \<open>[-\d]+\<close>, which
  tries the longest run first and gives characters back while the rest fails; \<open>lit\<close> is a
  literal character; a continuation is the rest of the expression.
\<close>

definition in_class :: "nat \<Rightarrow> bool" where
  "in_class c \<longleftrightarrow> c = 45 \<or> is_digit c"

fun try_lengths :: "nat \<Rightarrow> jsstring \<Rightarrow> (jsstring \<Rightarrow> jsstring \<Rightarrow> 'a option) \<Rightarrow> 'a option" where
  "try_lengths 0 s k = None"
| "try_lengths (Suc n) s k =
     (case k (take (Suc n) s) (drop (Suc n) s) of
        Some r \<Rightarrow> Some r
      | None \<Rightarrow> try_lengths n s k)"

definition cls_plus :: "jsstring \<Rightarrow> (jsstring \<Rightarrow> jsstring \<Rightarrow> 'a option) \<Rightarrow> 'a option" where
  "cls_plus s k = try_lengths (length (takeWhile in_class s)) s k"

definition lit :: "nat \<Rightarrow> jsstring \<Rightarrow> (jsstring \<Rightarrow> 'a option) \<Rightarrow> 'a option" where
  "lit c s k = (case s of [] \<Rightarrow> None | x # xs \<Rightarrow> if x = c then k xs else None)"

text \<open>A match that starts at the head of \<open>s\<close>: the array \<open>[match, group 1, group 2, group 3]\<close>.\<close>

definition match_here :: "jsstring \<Rightarrow> jsstring list option" where
  "match_here s =
     cls_plus s (\<lambda>a s.
     lit 44 s (\<lambda>s.
     cls_plus s (\<lambda>b s.
     lit 44 s (\<lambda>s.
     cls_plus s (\<lambda>c s.
     lit 44 s (\<lambda>s.
     cls_plus s (\<lambda>d s.
     lit 44 s (\<lambda>s.
     cls_plus s (\<lambda>p1 s.
     lit 44 s (\<lambda>s.
     cls_plus s (\<lambda>p2 s.
       let g1 = a @ [44] @ b @ [44] @ c @ [44] @ d
       in Some [g1 @ [44] @ p1 @ [44] @ p2, g1, p1, p2])))))))))))"

text \<open>\<open>message.match(regexPasv)\<close>: the match at the leftmost position that has one.\<close>

fun regexPasv_match :: "jsstring \<Rightarrow> jsstring list option" where
  "regexPasv_match [] = match_here []"
| "regexPasv_match (x # xs) =
     (case match_here (x # xs) of
        Some groups \<Rightarrow> Some groups
      | None \<Rightarrow> regexPasv_match xs)"

text \<open>\<open>s.replace(/,/g, ".")\<close>\<close>

definition replace_commas :: "jsstring \<Rightarrow> jsstring" where
  "replace_commas s = map (\<lambda>c. if c = 44 then 46 else c) s"

record target =
  host :: jsstring
  port :: int

definition parseIPV4PasvResponse :: "jsstring \<Rightarrow> target option" where
  "parseIPV4PasvResponse message =
     (case regexPasv_match message of
        None \<Rightarrow> None
      | Some groups \<Rightarrow>
          if length groups \<noteq> 4 then None
          else Some \<lparr> host = replace_commas (groups ! 1),
                      port = and255 (parseInt (groups ! 2)) * 256 + and255 (parseInt (groups ! 3)) \<rparr>)"

text \<open>
  The formatting side of the PASV round trip, which is not code of the module: the
  decimal notation of a non-negative integer, as a server writes the six numbers of a 227
  reply, the six numbers of a host and a port, and the dotted host.
\<close>

function decimal :: "nat \<Rightarrow> jsstring" where
  "decimal n = (if n < 10 then [48 + n] else decimal (n div 10) @ [48 + n mod 10])"
  by pat_completeness auto
termination
  by (relation "measure id") auto

declare decimal.simps [simp del]

definition format_pasv :: "nat \<Rightarrow> nat \<Rightarrow> nat \<Rightarrow> nat \<Rightarrow> nat \<Rightarrow> jsstring" where
  "format_pasv a b c d p =
     decimal a @ [44] @ decimal b @ [44] @ decimal c @ [44] @ decimal d @ [44]
       @ decimal (drop_bit 8 p) @ [44] @ decimal (p AND 255)"

definition dotted_quad :: "nat \<Rightarrow> nat \<Rightarrow> nat \<Rightarrow> nat \<Rightarrow> jsstring" where
  "dotted_quad a b c d = decimal a @ [46] @ decimal b @ [46] @ decimal c @ [46] @ decimal d"

text \<open>A non-empty run of characters of the class \<open>[-\d]\<close>.\<close>

definition is_run :: "jsstring \<Rightarrow> bool" where
  "is_run r \<longleftrightarrow> r \<noteq> [] \<and> (\<forall>c\<in>set r. in_class c)"

section \<open>The control-socket data listener\<close>

text \<open>
  The value of the property \<open>error\<close> of a payload: a string, as in
  \<open>{ error: "Timeout" }\<close>, or an \<open>Error\<close> object of a socket, with its message. A payload is
  \<open>{ code, message }\<close> or \<open>{ error }\<close>.
\<close>

datatype errval = ErrString jsstring | ErrObject jsstring

datatype payload = Response jsnum jsstring | Failure errval

text \<open>
  What the control socket's \<open>data\<close> listener passes to \<open>_respond\<close> for one chunk; \<open>text\<close> is
  \<open>data.toString()\<close>, which for ASCII bytes is the bytes themselves. Every chunk makes one
  payload; nothing is kept from one chunk to the next.
\<close>

definition data_payload :: "jsstring \<Rightarrow> payload" where
  "data_payload text =
     (let message = trim text;
          code = parseInt (substr message 0 3)
      in Response code message)"

text \<open>Property reads on a payload: a missing property is \<open>undefined\<close>, here \<open>None\<close>.\<close>

fun code :: "payload \<Rightarrow> jsnum option" where
  "code (Response n m) = Some n"
| "code (Failure e) = None"

fun message :: "payload \<Rightarrow> jsstring option" where
  "message (Response n m) = Some m"
| "message (Failure e) = None"

fun error :: "payload \<Rightarrow> errval option" where
  "error (Response n m) = None"
| "error (Failure e) = Some e"

text \<open>\<open>x === n\<close>, \<open>x >= n\<close>, \<open>x < n\<close>, \<open>x > n\<close> for a number literal \<open>n\<close>, and truthiness.\<close>

fun js_eq :: "jsnum option \<Rightarrow> int \<Rightarrow> bool" where
  "js_eq (Some (Num m)) n = (m = n)"
| "js_eq _ n = False"

fun js_ge :: "jsnum option \<Rightarrow> int \<Rightarrow> bool" where
  "js_ge (Some (Num m)) n = (n \<le> m)"
| "js_ge (Some (Infinity neg)) n = (\<not> neg)"
| "js_ge _ n = False"

fun js_lt :: "jsnum option \<Rightarrow> int \<Rightarrow> bool" where
  "js_lt (Some (Num m)) n = (m < n)"
| "js_lt (Some (Infinity neg)) n = neg"
| "js_lt _ n = False"

fun js_gt :: "jsnum option \<Rightarrow> int \<Rightarrow> bool" where
  "js_gt (Some (Num m)) n = (n < m)"
| "js_gt (Some (Infinity neg)) n = (\<not> neg)"
| "js_gt _ n = False"

fun truthy_num :: "jsnum option \<Rightarrow> bool" where
  "truthy_num (Some (Num m)) = (m \<noteq> 0)"
| "truthy_num (Some (Infinity neg)) = True"
| "truthy_num _ = False"

fun truthy_err :: "errval option \<Rightarrow> bool" where
  "truthy_err (Some (ErrString s)) = (s \<noteq> [])"
| "truthy_err (Some (ErrObject m)) = True"
| "truthy_err None = False"

section \<open>The class \<open>Client\<close>\<close>

text \<open>
  A socket is an object of Node; the model records what the module does to it: the
  argument of the last \<open>setTimeout\<close>, \<open>setKeepAlive(true)\<close>, the listeners the module
  registered (in order), the strings written, the number of \<open>destroy()\<close> calls, whether it
  is a TLS socket (\<open>getSession\<close> is defined), the target of \<open>connect\<close>, and whether a stream
  was piped into or out of it.
\<close>

datatype listener =
    L_error
  | L_timeout
  | L_data
  | L_listData "nat option"
  | L_listEnd "nat option"

record sock =
  timeout :: "nat option"
  keepAlive :: bool
  listeners :: "listener list"
  written :: "jsstring list"
  destroyed :: nat
  secure :: bool
  connectedTo :: "(jsstring \<times> int) option"
  pipedIn :: bool
  pipedOut :: bool

definition new_Socket :: sock where
  "new_Socket = \<lparr> timeout = None, keepAlive = False, listeners = [], written = [],
     destroyed = 0, secure = False, connectedTo = None, pipedIn = False, pipedOut = False \<rparr>"

text \<open>
  The values a promise of the module is settled with; \<open>VParsed raw\<close> stands for
  \<open>parseList(raw)\<close> of the listing parser the caller supplies.
\<close>

datatype exn = TypeError

datatype jsvalue =
    Undefined
  | VNum jsnum
  | VString jsstring
  | VPayload payload
  | VErr errval
  | VParsed jsstring
  | VExn exn

datatype promise = Pending | Resolved jsvalue | Rejected jsvalue

datatype options = Options (rejectUnauthorized: "bool option")

text \<open>The handlers the operations of the module pass to \<open>handle\<close>, with what they close over.\<close>

datatype handler =
    H_connect
  | H_send bool
  | H_useTLS options
  | H_enterPassiveMode "jsstring \<Rightarrow> target option"
  | H_list
  | H_upload
  | H_download jsstring

text \<open>
  The fields of a \<open>Client\<close>, and below them its surroundings: the promises \<open>handle\<close> has
  created (\<open>task\<close> is the index of the promise that \<open>_task\<close> settles), the lines written by
  \<open>console.log\<close>, the text each \<open>list\<close> call has collected (by its task), the TLS
  handshakes \<open>useTLS\<close> has started and the data connections \<open>enterPassiveMode\<close> is dialling.
\<close>

record client =
  timeoutMillis :: nat
  task :: "nat option"
  handler :: "handler option"
  tlsOptions :: options
  verbose :: bool
  socket :: "sock option"
  dataSocket :: "sock option"
  promises :: "promise list"
  console :: "jsstring list"
  listText :: "nat option \<Rightarrow> jsstring"
  upgrades :: "(nat option \<times> options) list"
  dials :: "(nat option \<times> target) list"

text \<open>A call returns a result or throws; the state reached is kept in both cases.\<close>

datatype 'a outcome = Ok 'a client | Throws exn client

fun state_of :: "'a outcome \<Rightarrow> client" where
  "state_of (Ok r c) = c"
| "state_of (Throws e c) = c"

definition Client_log :: "jsstring \<Rightarrow> client \<Rightarrow> client" where
  "Client_log msg c = (if verbose c then c\<lparr> console := console c @ [msg] \<rparr> else c)"

definition Client_closeSocket :: "sock option \<Rightarrow> sock option" where
  "Client_closeSocket s =
     (case s of None \<Rightarrow> None | Some so \<Rightarrow> Some (so\<lparr> destroyed := Suc (destroyed so) \<rparr>))"

definition Client_close :: "client \<Rightarrow> client" where
  "Client_close c =
     (let c1 = Client_log (js ''Closing sockets.'') c;
          c2 = c1\<lparr> socket := Client_closeSocket (socket c1) \<rparr>
      in c2\<lparr> dataSocket := Client_closeSocket (dataSocket c2) \<rparr>)"

text \<open>
  \<open>_setupSocket(newSocket, oldSocket)\<close>. The old socket loses its listeners and is the
  client's no longer, so it leaves the model.
\<close>

definition Client_setupSocket :: "sock option \<Rightarrow> sock option \<Rightarrow> client \<Rightarrow> sock option" where
  "Client_setupSocket newSocket oldSocket c =
     (case newSocket of
        None \<Rightarrow> None
      | Some s \<Rightarrow> Some (s\<lparr> timeout := Some (timeoutMillis c),
                            listeners := listeners s @ [L_error, L_timeout] \<rparr>))"

definition Client_set_socket :: "sock option \<Rightarrow> client \<Rightarrow> client" where
  "Client_set_socket newSocket c =
     (let c1 = c\<lparr> socket := Client_setupSocket newSocket (socket c) c \<rparr>
      in case socket c1 of
           None \<Rightarrow> c1
         | Some s \<Rightarrow> c1\<lparr> socket := Some (s\<lparr> keepAlive := True,
                                               listeners := listeners s @ [L_data] \<rparr>) \<rparr>)"

definition Client_set_dataSocket :: "sock option \<Rightarrow> client \<Rightarrow> client" where
  "Client_set_dataSocket newSocket c =
     c\<lparr> dataSocket := Client_setupSocket newSocket (dataSocket c) c \<rparr>"

definition Client_hasTLS :: "client \<Rightarrow> bool" where
  "Client_hasTLS c = (case socket c of None \<Rightarrow> False | Some s \<Rightarrow> secure s)"

text \<open>\<open>new Client(timeoutMillis)\<close>; \<open>None\<close> is the call without the argument.\<close>

definition new_Client :: "nat option \<Rightarrow> client" where
  "new_Client arg =
     (let c = \<lparr> timeoutMillis = (case arg of None \<Rightarrow> 0 | Some t \<Rightarrow> t),
                task = None, handler = None, tlsOptions = Options None, verbose = False,
                socket = None, dataSocket = None,
                promises = [], console = [], listText = (\<lambda>t. []), upgrades = [], dials = [] \<rparr>
      in Client_set_dataSocket None (Client_set_socket (Some new_Socket) c))"

definition Client_send :: "jsstring \<Rightarrow> client \<Rightarrow> unit outcome" where
  "Client_send command c =
     (let hasPass = (indexOf command (js ''PASS'') \<noteq> - 1);
          msg = (if hasPass then js ''> PASS ###'' else js ''> '' @ command);
          c1 = Client_log msg c
      in case socket c1 of
           None \<Rightarrow> Throws TypeError c1
         | Some s \<Rightarrow> Ok () (c1\<lparr> socket := Some (s\<lparr> written := written s @ [command @ CRLF] \<rparr>) \<rparr>))"

text \<open>A promise is settled once; settling it again changes nothing.\<close>

definition settle :: "nat \<Rightarrow> promise \<Rightarrow> promise list \<Rightarrow> promise list" where
  "settle t r ps = (if t < length ps \<and> ps ! t = Pending then ps[t := r] else ps)"

text \<open>
  \<open>task.resolve\<close> and \<open>task.reject\<close> of the task object that \<open>handle\<close> builds; calling them
  on \<open>undefined\<close> throws.
\<close>

definition task_resolve :: "nat option \<Rightarrow> jsvalue \<Rightarrow> client \<Rightarrow> unit outcome" where
  "task_resolve tk v c =
     (case tk of
        None \<Rightarrow> Throws TypeError c
      | Some t \<Rightarrow> Ok () (c\<lparr> handler := None, promises := settle t (Resolved v) (promises c) \<rparr>))"

definition task_reject :: "nat option \<Rightarrow> jsvalue \<Rightarrow> client \<Rightarrow> unit outcome" where
  "task_reject tk v c =
     (case tk of
        None \<Rightarrow> Throws TypeError c
      | Some t \<Rightarrow> Ok () (c\<lparr> handler := None, promises := settle t (Rejected v) (promises c) \<rparr>))"

text \<open>
  \<open>handle(command, handler)\<close> returns the new promise. An exception in the executor of a
  promise rejects that promise.
\<close>

definition Client_handle :: "jsstring option \<Rightarrow> handler \<Rightarrow> client \<Rightarrow> nat outcome" where
  "Client_handle command h c =
     (let t = length (promises c);
          c1 = c\<lparr> promises := promises c @ [Pending], handler := Some h, task := Some t \<rparr>
      in case command of
           None \<Rightarrow> Ok t c1
         | Some cmd \<Rightarrow>
             (case Client_send cmd c1 of
                Ok u c2 \<Rightarrow> Ok t c2
              | Throws e c2 \<Rightarrow> Ok t (c2\<lparr> promises := settle t (Rejected (VExn e)) (promises c2) \<rparr>)))"

section \<open>The operations of the module and their handlers\<close>

definition connect_handler :: "payload \<Rightarrow> nat option \<Rightarrow> client \<Rightarrow> unit outcome" where
  "connect_handler res tk c =
     (if js_eq (code res) 220 then task_resolve tk Undefined c
      else task_reject tk (VPayload res) c)"

definition send_handler :: "bool \<Rightarrow> payload \<Rightarrow> nat option \<Rightarrow> client \<Rightarrow> unit outcome" where
  "send_handler ignoreErrorCodes res tk c =
     (let success = (js_ge (code res) 200 \<and> js_lt (code res) 400)
      in if success \<or> (truthy_num (code res) \<and> ignoreErrorCodes)
         then task_resolve tk (case code res of None \<Rightarrow> Undefined | Some n \<Rightarrow> VNum n) c
         else task_reject tk (VPayload res) c)"

text \<open>
  \<open>useTLS\<close>: on 200 or 234 the handler starts \<open>upgradeSocket\<close>; the handshake ends later
  (\<open>Tls_secureConnect\<close> below), and the task stays pending until then.
\<close>

definition useTLS_handler :: "options \<Rightarrow> payload \<Rightarrow> nat option \<Rightarrow> client \<Rightarrow> unit outcome" where
  "useTLS_handler opts res tk c =
     (if js_eq (code res) 200 \<or> js_eq (code res) 234
      then Ok () (c\<lparr> upgrades := upgrades c @ [(tk, opts)] \<rparr>)
      else task_reject tk (VPayload res) c)"

definition cant_parse :: jsstring where
  "cant_parse = js ''Can'' @ [39] @ js ''t parse PASV response''"

definition cant_open :: jsstring where
  "cant_open = js ''Can'' @ [39] @ js ''t open data connection in passive mode: ''"

definition enterPassiveMode_handler ::
    "(jsstring \<Rightarrow> target option) \<Rightarrow> payload \<Rightarrow> nat option \<Rightarrow> client \<Rightarrow> unit outcome" where
  "enterPassiveMode_handler parsePasvResponse res tk c =
     (if js_eq (code res) 227 then
        (case parsePasvResponse (case message res of None \<Rightarrow> [] | Some m \<Rightarrow> m) of
           None \<Rightarrow> task_reject tk (VString cant_parse) c
         | Some tg \<Rightarrow> Ok () (c\<lparr> dials := dials c @ [(tk, tg)] \<rparr>))
      else task_reject tk (VPayload res) c)"

definition list_handler :: "payload \<Rightarrow> nat option \<Rightarrow> client \<Rightarrow> unit outcome" where
  "list_handler res tk c =
     (if js_eq (code res) 150 then
        (case dataSocket c of
           None \<Rightarrow> Throws TypeError c
         | Some d \<Rightarrow>
             Ok () (c\<lparr> dataSocket :=
               Some (d\<lparr> listeners := listeners d @ [L_listData tk, L_listEnd tk] \<rparr>) \<rparr>))
      else if js_gt (code res) 400 \<or> truthy_err (error res) then task_reject tk (VPayload res) c
      else Ok () c)"

definition upload_handler :: "payload \<Rightarrow> nat option \<Rightarrow> client \<Rightarrow> unit outcome" where
  "upload_handler res tk c =
     (if js_eq (code res) 150 then
        (case dataSocket c of
           None \<Rightarrow> Throws TypeError c
         | Some d \<Rightarrow> Ok () (c\<lparr> dataSocket := Some (d\<lparr> pipedIn := True \<rparr>) \<rparr>))
      else if js_eq (code res) 226 then task_resolve tk Undefined c
      else if js_gt (code res) 400 \<or> truthy_err (error res) then task_reject tk (VPayload res) c
      else Ok () c)"

definition download_handler :: "jsstring \<Rightarrow> payload \<Rightarrow> nat option \<Rightarrow> client \<Rightarrow> unit outcome" where
  "download_handler remoteFilename res tk c =
     (if js_eq (code res) 150 then
        (case dataSocket c of
           None \<Rightarrow> Throws TypeError c
         | Some d \<Rightarrow> Ok () (c\<lparr> dataSocket := Some (d\<lparr> pipedOut := True \<rparr>) \<rparr>))
      else if js_eq (code res) 350 then Client_send (js ''RETR '' @ remoteFilename) c
      else if js_eq (code res) 226 then task_resolve tk Undefined c
      else if js_gt (code res) 400 \<or> truthy_err (error res) then task_reject tk (VPayload res) c
      else Ok () c)"

fun run_handler :: "handler \<Rightarrow> payload \<Rightarrow> nat option \<Rightarrow> client \<Rightarrow> unit outcome" where
  "run_handler H_connect = connect_handler"
| "run_handler (H_send ignoreErrorCodes) = send_handler ignoreErrorCodes"
| "run_handler (H_useTLS opts) = useTLS_handler opts"
| "run_handler (H_enterPassiveMode parsePasvResponse) = enterPassiveMode_handler parsePasvResponse"
| "run_handler H_list = list_handler"
| "run_handler H_upload = upload_handler"
| "run_handler (H_download remoteFilename) = download_handler remoteFilename"

text \<open>\<open>_respond(payload)\<close>\<close>

definition Client_respond :: "payload \<Rightarrow> client \<Rightarrow> unit outcome" where
  "Client_respond pl c =
     (case handler c of
        None \<Rightarrow> Ok () c
      | Some h \<Rightarrow> run_handler h pl (task c) c)"

definition connect :: "jsstring \<Rightarrow> int \<Rightarrow> client \<Rightarrow> nat outcome" where
  "connect hostname portnum c =
     (case socket c of
        None \<Rightarrow> Throws TypeError c
      | Some s \<Rightarrow>
          Client_handle None H_connect
            (c\<lparr> socket := Some (s\<lparr> connectedTo := Some (hostname, portnum) \<rparr>) \<rparr>))"

definition send :: "jsstring \<Rightarrow> bool \<Rightarrow> client \<Rightarrow> nat outcome" where
  "send command ignoreErrorCodes c = Client_handle (Some command) (H_send ignoreErrorCodes) c"

definition useTLS :: "options \<Rightarrow> client \<Rightarrow> nat outcome" where
  "useTLS opts c = Client_handle (Some (js ''AUTH TLS'')) (H_useTLS opts) c"

definition enterPassiveMode :: "(jsstring \<Rightarrow> target option) \<Rightarrow> client \<Rightarrow> nat outcome" where
  "enterPassiveMode parsePasvResponse c =
     Client_handle (Some (js ''PASV'')) (H_enterPassiveMode parsePasvResponse) c"

text \<open>\<open>list\<close>; its variable \<open>list\<close> starts empty for the task the call creates.\<close>

definition ftp_list :: "client \<Rightarrow> nat outcome" where
  "ftp_list c =
     Client_handle (Some (js ''LIST'')) H_list
       (c\<lparr> listText := (listText c)(Some (length (promises c)) := []) \<rparr>)"

definition upload :: "jsstring \<Rightarrow> client \<Rightarrow> nat outcome" where
  "upload remoteFilename c = Client_handle (Some (js ''STOR '' @ remoteFilename)) H_upload c"

definition download :: "jsstring \<Rightarrow> nat \<Rightarrow> client \<Rightarrow> nat outcome" where
  "download remoteFilename startAt c =
     Client_handle
       (Some (if 0 < startAt then js ''REST '' @ decimal startAt else js ''RETR '' @ remoteFilename))
       (H_download remoteFilename) c"

text \<open>
  \<open>login\<close> is an async function of two statements: \<open>login_user\<close> runs at the call, and
  \<open>login_pass\<close> once the promise of the first has resolved.
\<close>

definition login_user :: "jsstring \<Rightarrow> client \<Rightarrow> nat outcome" where
  "login_user user c = send (js ''USER '' @ user) False c"

definition login_pass :: "jsstring \<Rightarrow> client \<Rightarrow> nat outcome" where
  "login_pass password c = send (js ''PASS '' @ password) False c"

section \<open>Events\<close>

text \<open>
  An event of a socket calls the listeners registered for it, in order. The listeners are
  the closures of the module: \<open>L_error\<close> and \<open>L_timeout\<close> from \<open>_setupSocket\<close>, \<open>L_data\<close> from
  the setter of \<open>socket\<close>, \<open>L_listData\<close> and \<open>L_listEnd\<close> from the handler of \<open>list\<close>.
\<close>

fun emit :: "(listener \<Rightarrow> client \<Rightarrow> unit outcome) \<Rightarrow> listener list \<Rightarrow> client \<Rightarrow> unit outcome" where
  "emit f [] c = Ok () c"
| "emit f (l # ls) c =
     (case f l c of
        Ok u c' \<Rightarrow> emit f ls c'
      | Throws e c' \<Rightarrow> Throws e c')"

definition on_error :: "errval \<Rightarrow> listener \<Rightarrow> client \<Rightarrow> unit outcome" where
  "on_error e l c = (case l of L_error \<Rightarrow> Client_respond (Failure e) c | _ \<Rightarrow> Ok () c)"

definition on_timeout :: "listener \<Rightarrow> client \<Rightarrow> unit outcome" where
  "on_timeout l c =
     (case l of
        L_timeout \<Rightarrow> Client_respond (Failure (ErrString (js ''Timeout''))) c
      | _ \<Rightarrow> Ok () c)"

definition on_data :: "jsstring \<Rightarrow> listener \<Rightarrow> client \<Rightarrow> unit outcome" where
  "on_data text l c =
     (case l of
        L_data \<Rightarrow>
          (let message = trim text;
               code = parseInt (substr message 0 3);
               c1 = Client_log (js ''< '' @ message) c
           in Client_respond (Response code message) c1)
      | L_listData tk \<Rightarrow> Ok () (c\<lparr> listText := (listText c)(tk := listText c tk @ text) \<rparr>)
      | _ \<Rightarrow> Ok () c)"

definition on_end :: "listener \<Rightarrow> client \<Rightarrow> unit outcome" where
  "on_end l c =
     (case l of
        L_listEnd tk \<Rightarrow>
          (let c1 = Client_log (listText c tk) c
           in task_resolve tk (VParsed (listText c1 tk)) c1)
      | _ \<Rightarrow> Ok () c)"

fun is_once :: "listener \<Rightarrow> bool" where
  "is_once (L_listEnd tk) = True"
| "is_once _ = False"

text \<open>Dropping the entry at a position of a list.\<close>

definition remove_nth :: "nat \<Rightarrow> 'a list \<Rightarrow> 'a list" where
  "remove_nth i xs = take i xs @ drop (Suc i) xs"

fun forget :: "nat outcome \<Rightarrow> unit outcome" where
  "forget (Ok t c) = Ok () c"
| "forget (Throws e c) = Throws e c"

text \<open>
  What can happen to a client: a call of an operation, an event of the control socket
  (\<open>Socket_\<close>) or of the data socket (\<open>Data_\<close>), the end of a TLS handshake that \<open>useTLS\<close>
  started (authorized or not, with the authorization error and the protocol name), and
  the success or failure of a data connection that \<open>enterPassiveMode\<close> is dialling (with
  the protocol name of the TLS socket, or the message of the error).
\<close>

datatype event =
    Call_connect jsstring int
  | Call_send jsstring bool
  | Call_useTLS options
  | Call_enterPassiveMode "jsstring \<Rightarrow> target option"
  | Call_list
  | Call_upload jsstring
  | Call_download jsstring nat
  | Call_close
  | Socket_data jsstring
  | Socket_error errval
  | Socket_timeout
  | Data_data jsstring
  | Data_end
  | Data_error errval
  | Data_timeout
  | Tls_secureConnect nat bool errval jsstring
  | Dial_connect nat jsstring
  | Dial_error nat jsstring

definition secureConnect :: "nat \<Rightarrow> bool \<Rightarrow> errval \<Rightarrow> jsstring \<Rightarrow> client \<Rightarrow> unit outcome" where
  "secureConnect i authorized authorizationError protocol c =
     (if length (upgrades c) \<le> i then Ok () c
      else
        let (tk, opts) = upgrades c ! i;
            c1 = c\<lparr> upgrades := remove_nth i (upgrades c) \<rparr>;
            expectCertificate = (rejectUnauthorized opts \<noteq> Some False)
        in if expectCertificate \<and> \<not> authorized then task_reject tk (VErr authorizationError) c1
           else
             let c2 = Client_log (js ''Control socket is using '' @ protocol) c1;
                 c3 = Client_set_socket (Some (new_Socket\<lparr> secure := True \<rparr>)) c2;
                 c4 = c3\<lparr> tlsOptions := opts \<rparr>
             in task_resolve tk Undefined c4)"

definition dial_connect :: "nat \<Rightarrow> jsstring \<Rightarrow> client \<Rightarrow> unit outcome" where
  "dial_connect i protocol c =
     (if length (dials c) \<le> i then Ok () c
      else
        let (tk, tg) = dials c ! i;
            c1 = c\<lparr> dials := remove_nth i (dials c) \<rparr>;
            s = new_Socket\<lparr> connectedTo := Some (host tg, port tg) \<rparr>;
            c2 = (if Client_hasTLS c1 then Client_log (js ''Data socket uses '' @ protocol) c1 else c1);
            s' = (if Client_hasTLS c1 then s\<lparr> secure := True \<rparr> else s);
            c3 = Client_set_dataSocket (Some s') c2
        in task_resolve tk Undefined c3)"

definition dial_error :: "nat \<Rightarrow> jsstring \<Rightarrow> client \<Rightarrow> unit outcome" where
  "dial_error i msg c =
     (if length (dials c) \<le> i then Ok () c
      else
        let (tk, tg) = dials c ! i;
            c1 = c\<lparr> dials := remove_nth i (dials c) \<rparr>
        in task_reject tk (VString (cant_open @ msg)) c1)"

fun step :: "event \<Rightarrow> client \<Rightarrow> unit outcome" where
  "step (Call_connect hostname portnum) c = forget (connect hostname portnum c)"
| "step (Call_send command ignoreErrorCodes) c = forget (send command ignoreErrorCodes c)"
| "step (Call_useTLS opts) c = forget (useTLS opts c)"
| "step (Call_enterPassiveMode parsePasvResponse) c = forget (enterPassiveMode parsePasvResponse c)"
| "step Call_list c = forget (ftp_list c)"
| "step (Call_upload remoteFilename) c = forget (upload remoteFilename c)"
| "step (Call_download remoteFilename startAt) c = forget (download remoteFilename startAt c)"
| "step Call_close c = Ok () (Client_close c)"
| "step (Socket_data text) c =
     (case socket c of None \<Rightarrow> Ok () c | Some s \<Rightarrow> emit (on_data text) (listeners s) c)"
| "step (Socket_error e) c =
     (case socket c of None \<Rightarrow> Ok () c | Some s \<Rightarrow> emit (on_error e) (listeners s) c)"
| "step Socket_timeout c =
     (case socket c of None \<Rightarrow> Ok () c | Some s \<Rightarrow> emit on_timeout (listeners s) c)"
| "step (Data_data text) c =
     (case dataSocket c of None \<Rightarrow> Ok () c | Some d \<Rightarrow> emit (on_data text) (listeners d) c)"
| "step Data_end c =
     (case dataSocket c of
        None \<Rightarrow> Ok () c
      | Some d \<Rightarrow>
          emit on_end (listeners d)
            (c\<lparr> dataSocket := Some (d\<lparr> listeners := filter (\<lambda>l. \<not> is_once l) (listeners d) \<rparr>) \<rparr>))"
| "step (Data_error e) c =
     (case dataSocket c of None \<Rightarrow> Ok () c | Some d \<Rightarrow> emit (on_error e) (listeners d) c)"
| "step Data_timeout c =
     (case dataSocket c of None \<Rightarrow> Ok () c | Some d \<Rightarrow> emit on_timeout (listeners d) c)"
| "step (Tls_secureConnect i authorized authorizationError protocol) c =
     secureConnect i authorized authorizationError protocol c"
| "step (Dial_connect i protocol) c = dial_connect i protocol c"
| "step (Dial_error i msg) c = dial_error i msg c"

text \<open>A sequence of events, up to the first exception that nothing catches.\<close>

fun run :: "event list \<Rightarrow> client \<Rightarrow> unit outcome" where
  "run [] c = Ok () c"
| "run (e # es) c =
     (case step e c of
        Ok u c' \<Rightarrow> run es c'
      | Throws x c' \<Rightarrow> Throws x c')"

text \<open>The two sides of the dispatcher's invariant.\<close>

definition task_pending :: "client \<Rightarrow> bool" where
  "task_pending c =
     (case task c of
        None \<Rightarrow> False
      | Some t \<Rightarrow> t < length (promises c) \<and> promises c ! t = Pending)"

definition handler_installed :: "client \<Rightarrow> bool" where
  "handler_installed c = (handler c \<noteq> None)"

text \<open>What every event keeps: there is a control socket, and a handler is installed only
  while the current task is pending.\<close>

definition dispatcher_inv :: "client \<Rightarrow> bool" where
  "dispatcher_inv c \<longleftrightarrow> socket c \<noteq> None \<and> (handler_installed c \<longrightarrow> task_pending c)"

text \<open>
  The listeners of \<open>_setupSocket\<close> are on a socket, if there is one; and on both sockets of
  a client.
\<close>

definition wired :: "sock option \<Rightarrow> bool" where
  "wired so =
     (case so of
        None \<Rightarrow> True
      | Some s \<Rightarrow> L_error \<in> set (listeners s) \<and> L_timeout \<in> set (listeners s))"

definition sockets_wired :: "client \<Rightarrow> bool" where
  "sockets_wired c \<longleftrightarrow> wired (socket c) \<and> wired (dataSocket c)"

text \<open>A session up to a pending \<open>list\<close>, with the data socket that \<open>enterPassiveMode\<close> installed.\<close>

definition list_pending :: "event list" where
  "list_pending =
     [Call_connect (js ''h'') 21,
      Socket_data (js ''220 Service ready'' @ CRLF),
      Call_enterPassiveMode parseIPV4PasvResponse,
      Socket_data (js ''227 Entering Passive Mode (127,0,0,1,4,1)'' @ CRLF),
      Dial_connect 0 [],
      Call_list]"

text \<open>
  A session in which a listing is aborted: the server answers \<open>LIST\<close> with 150 and then
  426, the caller sends \<open>NOOP\<close> from its rejection handler, and the data connection ends
  afterwards.
\<close>

definition aborted_list :: "event list" where
  "aborted_list =
     [Call_connect (js ''h'') 21,
      Socket_data (js ''220 Service ready'' @ CRLF),
      Call_enterPassiveMode parseIPV4PasvResponse,
      Socket_data (js ''227 Entering Passive Mode (127,0,0,1,4,1)'' @ CRLF),
      Dial_connect 0 [],
      Call_list,
      Socket_data (js ''150 Here comes the directory listing'' @ CRLF),
      Socket_data (js ''426 Transfer aborted'' @ CRLF),
      Call_send (js ''NOOP'') False]"

section \<open>Properties of the PASV response parser\<close>

lemma bit_length_bound: "n < 2 ^ k \<Longrightarrow> bit_length n \<le> k"
proof (induction k arbitrary: n)
  case 0
  then show ?case by (simp add: bit_length.simps)
next
  case (Suc k)
  have "n div 2 < 2 ^ k" using Suc.prems by simp
  from Suc.IH [OF this] show ?case by (subst bit_length.simps) simp
qed

lemma to_double_small: "\<bar>n\<bar> < 2 ^ 53 \<Longrightarrow> to_double n = Num n"
  using bit_length_bound [of "\<bar>n\<bar>" 53] by (simp add: to_double_def Let_def)

lemma and255_range: "0 \<le> and255 x \<and> and255 x \<le> 255"
  unfolding and255_def by simp

lemma int_and_255: "(n::int) AND 255 = n mod 256"
proof -
  have "mask 8 = (255::int)" by (simp add: mask_eq_exp_minus_1)
  then have "n AND 255 = take_bit 8 n" by (simp add: take_bit_eq_mask)
  then show ?thesis by (simp add: take_bit_eq_mod)
qed

lemma nat_and_255: "(p::nat) AND 255 = p mod 256"
proof -
  have "mask 8 = (255::nat)" by (simp add: mask_eq_exp_minus_1)
  then have "p AND 255 = take_bit 8 p" by (simp add: take_bit_eq_mask)
  then show ?thesis by (simp add: take_bit_eq_mod)
qed

lemma and255_small: "0 \<le> n \<Longrightarrow> n \<le> 255 \<Longrightarrow> and255 (Num n) = n"
  by (simp add: and255_def ToInt32_def Let_def int_and_255)

lemma decimal_digits: "\<forall>c\<in>set (decimal n). is_digit c"
proof (induction n rule: decimal.induct)
  case (1 n)
  show ?case
  proof (cases "n < 10")
    case True
    then show ?thesis by (subst decimal.simps) (simp add: is_digit_def)
  next
    case False
    have "n mod 10 < 10" by simp
    then have "is_digit (48 + n mod 10)" unfolding is_digit_def by linarith
    with False 1 show ?thesis by (subst decimal.simps) simp
  qed
qed

lemma decimal_nonempty: "decimal n \<noteq> []"
  by (subst decimal.simps) simp

lemma digits_value_snoc: "digits_value (ds @ [d]) = digits_value ds * 10 + (int d - 48)"
  by (simp add: digits_value_def)

lemma digits_value_decimal: "digits_value (decimal n) = int n"
proof (induction n rule: decimal.induct)
  case (1 n)
  show ?case
  proof (cases "n < 10")
    case True
    then show ?thesis by (subst decimal.simps) (simp add: digits_value_def)
  next
    case False
    with 1 have ih: "digits_value (decimal (n div 10)) = int (n div 10)" by simp
    have "digits_value (decimal n) = digits_value (decimal (n div 10) @ [48 + n mod 10])"
      using False by (subst decimal.simps) simp
    also have "\<dots> = int (n div 10) * 10 + int (n mod 10)"
      by (simp add: digits_value_snoc ih)
    also have "\<dots> = int n" by (simp add: zdiv_int zmod_int)
    finally show ?thesis .
  qed
qed

lemma parseInt_decimal: "n < 2 ^ 53 \<Longrightarrow> parseInt (decimal n) = Num (int n)"
proof -
  assume n: "n < 2 ^ 53"
  obtain x xs where d: "decimal n = x # xs" using decimal_nonempty [of n] by (cases "decimal n") auto
  have dig: "\<forall>c\<in>set (decimal n). is_digit c" by (rule decimal_digits)
  then have x: "is_digit x" using d by simp
  then have nows: "\<not> is_ws x" and nosign: "x \<noteq> 45" "x \<noteq> 43"
    by (auto simp: is_digit_def is_ws_def)
  have tw: "takeWhile is_digit (decimal n) = decimal n" using dig by simp
  have "parseInt (decimal n) = to_double (digits_value (decimal n))"
    using nows nosign tw d by (simp add: parseInt_def Let_def)
  also have "\<dots> = Num (int n)"
    using n by (simp add: digits_value_decimal to_double_small)
  finally show ?thesis .
qed

lemma cls_plus_run:
  assumes "is_run r" and "rest = [] \<or> \<not> in_class (hd rest)" and "k r rest = Some v"
  shows "cls_plus (r @ rest) k = Some v"
proof -
  have "takeWhile in_class rest = []" using assms(2) by (cases rest) auto
  then have tw: "takeWhile in_class (r @ rest) = r"
    using assms(1) by (simp add: is_run_def)
  obtain n where n: "length r = Suc n" using assms(1) by (cases r) (auto simp: is_run_def)
  have "try_lengths (Suc n) (r @ rest) k = Some v"
    using assms(3) n by simp
  then show ?thesis by (simp add: cls_plus_def tw n)
qed

lemma lit_comma: "lit 44 (44 # s) k = k s"
  by (simp add: lit_def)

lemma comma_stops: "44 # s = [] \<or> \<not> in_class (hd (44 # s))"
  by (simp add: in_class_def is_digit_def)

lemma match_here_runs:
  assumes "is_run a" "is_run b" "is_run c" "is_run d" "is_run p1" "is_run p2"
    and "post = [] \<or> \<not> in_class (hd post)"
  shows "match_here (a @ 44 # b @ 44 # c @ 44 # d @ 44 # p1 @ 44 # p2 @ post) =
    Some [a @ [44] @ b @ [44] @ c @ [44] @ d @ [44] @ p1 @ [44] @ p2,
          a @ [44] @ b @ [44] @ c @ [44] @ d, p1, p2]"
  unfolding match_here_def
  apply (rule cls_plus_run [OF assms(1) comma_stops], simp only: lit_comma)
  apply (rule cls_plus_run [OF assms(2) comma_stops], simp only: lit_comma)
  apply (rule cls_plus_run [OF assms(3) comma_stops], simp only: lit_comma)
  apply (rule cls_plus_run [OF assms(4) comma_stops], simp only: lit_comma)
  apply (rule cls_plus_run [OF assms(5) comma_stops], simp only: lit_comma)
  apply (rule cls_plus_run [OF assms(6) assms(7)])
  apply (simp add: Let_def)
  done

lemma try_lengths_fail:
  "(\<forall>n. 0 < n \<and> n \<le> m \<longrightarrow> k (take n s) (drop n s) = None) \<Longrightarrow> try_lengths m s k = None"
  by (induction m) auto

lemma cls_plus_no_comma:
  assumes "\<forall>n\<le>length (takeWhile in_class s). drop n s = [] \<or> hd (drop n s) \<noteq> 44"
  shows "cls_plus s (\<lambda>a s. lit 44 s (k a)) = None"
  unfolding cls_plus_def
proof (rule try_lengths_fail, intro allI impI)
  fix n assume "0 < n \<and> n \<le> length (takeWhile in_class s)"
  with assms have "drop n s = [] \<or> hd (drop n s) \<noteq> 44" by simp
  then show "lit 44 (drop n s) (k (take n s)) = None"
    by (cases "drop n s") (auto simp: lit_def)
qed

lemma match_here_no_comma:
  assumes "44 \<notin> set u" and "u \<noteq> []" and "\<not> in_class (last u)"
  shows "match_here (u @ v) = None"
  unfolding match_here_def
proof (rule cls_plus_no_comma, intro allI impI)
  fix n assume n: "n \<le> length (takeWhile in_class (u @ v))"
  have lu: "last u \<in> set u" using assms(2) by simp
  then have tw: "takeWhile in_class (u @ v) = takeWhile in_class u"
    using assms(3) by simp
  have "takeWhile in_class u \<noteq> u"
    using lu assms(3) by auto
  moreover have "takeWhile in_class u = take (length (takeWhile in_class u)) u"
    by (rule takeWhile_eq_take)
  ultimately have "length (takeWhile in_class u) < length u"
    by (metis length_takeWhile_le nat_less_le take_all)
  with n tw have nu: "n < length u" by simp
  then have "hd (drop n (u @ v)) = u ! n" by (simp add: hd_drop_conv_nth nth_append)
  moreover have "u ! n \<in> set u" using nu by simp
  ultimately show "drop n (u @ v) = [] \<or> hd (drop n (u @ v)) \<noteq> 44"
    using assms(1) by auto
qed

lemma regexPasv_match_here: "match_here s = Some g \<Longrightarrow> regexPasv_match s = Some g"
  by (cases s) simp_all

lemma regexPasv_match_skip:
  assumes "match_here s = Some g"
  shows "44 \<notin> set pre \<Longrightarrow> pre = [] \<or> \<not> in_class (last pre) \<Longrightarrow> regexPasv_match (pre @ s) = Some g"
proof (induction pre)
  case Nil
  then show ?case using assms by (simp add: regexPasv_match_here)
next
  case (Cons x xs)
  have "match_here ((x # xs) @ s) = None"
    using Cons.prems by (intro match_here_no_comma) auto
  moreover have "regexPasv_match (xs @ s) = Some g"
    using Cons by (cases "xs = []") auto
  ultimately show ?case by simp
qed

lemma decimal_run: "is_run (decimal n)"
  using decimal_digits [of n] decimal_nonempty [of n] by (auto simp: is_run_def in_class_def)

lemma replace_commas_append: "replace_commas (xs @ ys) = replace_commas xs @ replace_commas ys"
  by (simp add: replace_commas_def)

lemma replace_commas_comma:
  "replace_commas (44 # xs) = 46 # replace_commas xs" "replace_commas [] = []"
  by (simp_all add: replace_commas_def)

lemma replace_commas_decimal: "replace_commas (decimal n) = decimal n"
proof -
  have "\<forall>c\<in>set (decimal n). c \<noteq> 44"
    using decimal_digits [of n] by (auto simp: is_digit_def)
  then show ?thesis by (simp add: replace_commas_def map_idI)
qed

text \<open>
  Claim C7. For every host \<open>a.b.c.d\<close> with components up to 255 and every port \<open>p\<close> up to
  65535, a message that carries \<open>a,b,c,d,p>>8,p&0xFF\<close> in decimal parses to the host
  \<open>a.b.c.d\<close> and the port \<open>p\<close>. The text before the six numbers has no comma and does not
  end in a digit or a minus sign, and the text after them does not start with one (as in
  \<open>227 Entering Passive Mode (...)\<close>, and as for the bare payload).
\<close>

theorem pasv_roundtrip:
  assumes "a \<le> 255" "b \<le> 255" "c \<le> 255" "d \<le> 255" "p \<le> 65535"
    and "44 \<notin> set pre" "pre = [] \<or> \<not> in_class (last pre)"
    and "post = [] \<or> \<not> in_class (hd post)"
  shows "parseIPV4PasvResponse (pre @ format_pasv a b c d p @ post) =
    Some \<lparr> host = dotted_quad a b c d, port = int p \<rparr>"
proof -
  define p1 where "p1 = p div 256"
  define p2 where "p2 = p mod 256"
  have p12: "p1 \<le> 255" "p2 \<le> 255" "int p1 * 256 + int p2 = int p"
    using assms(5) unfolding p1_def p2_def by (simp_all add: zdiv_int zmod_int)
  have fmt: "format_pasv a b c d p =
      decimal a @ 44 # decimal b @ 44 # decimal c @ 44 # decimal d @ 44 # decimal p1 @ 44 # decimal p2"
    by (simp add: format_pasv_def p1_def p2_def drop_bit_eq_div nat_and_255)
  have "match_here (decimal a @ 44 # decimal b @ 44 # decimal c @ 44 # decimal d @ 44 #
          decimal p1 @ 44 # decimal p2 @ post) =
        Some [decimal a @ [44] @ decimal b @ [44] @ decimal c @ [44] @ decimal d @ [44]
                @ decimal p1 @ [44] @ decimal p2,
              decimal a @ [44] @ decimal b @ [44] @ decimal c @ [44] @ decimal d,
              decimal p1, decimal p2]"
    by (rule match_here_runs [OF decimal_run decimal_run decimal_run decimal_run
          decimal_run decimal_run assms(8)])
  then have m: "regexPasv_match (pre @ format_pasv a b c d p @ post) =
        Some [decimal a @ [44] @ decimal b @ [44] @ decimal c @ [44] @ decimal d @ [44]
                @ decimal p1 @ [44] @ decimal p2,
              decimal a @ [44] @ decimal b @ [44] @ decimal c @ [44] @ decimal d,
              decimal p1, decimal p2]"
    using regexPasv_match_skip [OF _ assms(6) assms(7)] by (simp add: fmt)
  have h: "replace_commas (decimal a @ [44] @ decimal b @ [44] @ decimal c @ [44] @ decimal d)
      = dotted_quad a b c d"
    by (simp add: replace_commas_append replace_commas_decimal dotted_quad_def
        replace_commas_comma)
  have n1: "and255 (parseInt (decimal p1)) = int p1"
    using p12(1) by (simp add: parseInt_decimal and255_small)
  have n2: "and255 (parseInt (decimal p2)) = int p2"
    using p12(2) by (simp add: parseInt_decimal and255_small)
  show ?thesis
    unfolding parseIPV4PasvResponse_def m
    using h n1 n2 p12(3) by simp
qed

theorem pasv_roundtrip_witness:
  "parseIPV4PasvResponse (js ''227 Entering Passive Mode (192,168,3,200,10,229)'') =
     Some \<lparr> host = js ''192.168.3.200'', port = 2789 \<rparr>"
proof -
  have f: "format_pasv 192 168 3 200 2789 = js ''192,168,3,200,10,229''"
    by (simp add: format_pasv_def decimal.simps js_def drop_bit_eq_div nat_and_255)
  have q: "dotted_quad 192 168 3 200 = js ''192.168.3.200''"
    by (simp add: dotted_quad_def decimal.simps js_def)
  have pre: "44 \<notin> set (js ''227 Entering Passive Mode ('')"
    "js ''227 Entering Passive Mode ('' = [] \<or> \<not> in_class (last (js ''227 Entering Passive Mode (''))"
    by (simp_all add: js_def in_class_def is_digit_def)
  have post: "js '')'' = [] \<or> \<not> in_class (hd (js '')''))"
    by (simp add: js_def in_class_def is_digit_def)
  have "parseIPV4PasvResponse (js ''227 Entering Passive Mode ('' @ format_pasv 192 168 3 200 2789 @ js '')'') =
     Some \<lparr> host = dotted_quad 192 168 3 200, port = int 2789 \<rparr>"
    by (rule pasv_roundtrip [OF _ _ _ _ _ pre post]) simp_all
  then show ?thesis unfolding f q by (simp add: js_def)
qed

text \<open>
  Claim C10. Whenever \<open>parseIPV4PasvResponse\<close> returns a result, for any message at all,
  the port is an integer from 0 to 65535: each of the two numbers goes through \<open>& 255\<close>,
  which gives a value from 0 to 255 for every number (\<open>and255_range\<close>), whatever \<open>parseInt\<close>
  has returned.
\<close>

theorem pasv_port_range:
  assumes "parseIPV4PasvResponse msg = Some t"
  shows "0 \<le> port t \<and> port t \<le> 65535"
proof -
  obtain groups where t: "t = \<lparr> host = replace_commas (groups ! 1),
      port = and255 (parseInt (groups ! 2)) * 256 + and255 (parseInt (groups ! 3)) \<rparr>"
    using assms by (auto simp: parseIPV4PasvResponse_def split: option.splits if_splits)
  have "0 \<le> and255 (parseInt (groups ! 2))" "and255 (parseInt (groups ! 2)) \<le> 255"
       "0 \<le> and255 (parseInt (groups ! 3))" "and255 (parseInt (groups ! 3)) \<le> 255"
    using and255_range by blast+
  then show ?thesis unfolding t by simp
qed

theorem pasv_port_range_witness:
  "parseIPV4PasvResponse (js ''227 ok (10,0,0,1,-1,99999)'') =
      Some \<lparr> host = js ''10.0.0.1'', port = 65439 \<rparr>
   \<and> (0::int) \<le> 65439 \<and> (65439::int) \<le> 65535"
proof -
  have e: "parseIPV4PasvResponse (js ''227 ok (10,0,0,1,-1,99999)'') =
      Some \<lparr> host = js ''10.0.0.1'', port = 65439 \<rparr>"
    by (simp add: js_def parseIPV4PasvResponse_def match_here_def cls_plus_def lit_def
        in_class_def is_digit_def replace_commas_def and255_def ToInt32_def parseInt_def
        is_ws_def digits_value_def to_double_small int_and_255)
  from pasv_port_range [OF e] e show ?thesis by simp
qed

section \<open>Properties of the control-socket data listener\<close>

lemma digit_not_ws: "is_digit d \<Longrightarrow> \<not> is_ws d"
  by (auto simp: is_digit_def is_ws_def)

lemma trim_reply:
  assumes "\<not> is_ws x" and "body = [] \<or> \<not> is_ws (last body)"
  shows "trim (x # body @ CRLF) = x # body"
proof -
  define R where "R = rev (x # body)"
  have ws: "is_ws 10" "is_ws 13" by (simp_all add: is_ws_def)
  have d: "dropWhile is_ws R = R"
  proof (cases "body = []")
    case True
    then show ?thesis using assms(1) by (simp add: R_def)
  next
    case False
    then obtain y ys where r: "rev body = y # ys" by (cases "rev body") auto
    then have "y = last body" using False by (metis hd_rev list.sel(1))
    with False assms(2) have ny: "\<not> is_ws y" by simp
    have e: "R = y # (ys @ [x])" using r by (simp add: R_def)
    show ?thesis unfolding e using ny by simp
  qed
  have "rev (x # body @ CRLF) = 10 # 13 # R" by (simp add: CRLF_def R_def)
  then have "dropWhile is_ws (rev (x # body @ CRLF)) = R"
    using ws d by (simp only: dropWhile.simps if_True)
  then have "rev (dropWhile is_ws (rev (x # body @ CRLF))) = x # body"
    by (simp only: R_def rev_rev_ident)
  moreover have "dropWhile is_ws (x # body @ CRLF) = x # body @ CRLF"
    using assms(1) by simp
  ultimately show ?thesis unfolding trim_def by (simp only:)
qed

lemma parseInt_three_digits:
  assumes "is_digit d1" "is_digit d2" "is_digit d3"
  shows "parseInt [d1, d2, d3] = Num (100 * (int d1 - 48) + 10 * (int d2 - 48) + (int d3 - 48))"
proof -
  have nows: "\<not> is_ws d1" using assms(1) by (rule digit_not_ws)
  have nosign: "d1 \<noteq> 45" "d1 \<noteq> 43" using assms(1) by (auto simp: is_digit_def)
  have v: "digits_value [d1, d2, d3] = 100 * (int d1 - 48) + 10 * (int d2 - 48) + (int d3 - 48)"
    by (simp add: digits_value_def)
  have "\<bar>100 * (int d1 - 48) + 10 * (int d2 - 48) + (int d3 - 48)\<bar> < 2 ^ 53"
    using assms by (simp add: is_digit_def)
  then have "to_double (digits_value [d1, d2, d3]) = Num (100 * (int d1 - 48) + 10 * (int d2 - 48) + (int d3 - 48))"
    unfolding v by (rule to_double_small)
  then show ?thesis using nows nosign assms by (simp add: parseInt_def Let_def)
qed

lemma on_data_L_data:
  "on_data text L_data c = Client_respond (data_payload text) (Client_log (js ''< '' @ trim text) c)"
  by (simp add: on_data_def data_payload_def Let_def)

lemma data_payload_reply:
  assumes "is_digit d1" "is_digit d2" "is_digit d3"
    and "body = [] \<or> \<not> is_ws (last body)"
  shows "data_payload ([d1, d2, d3] @ body @ CRLF) =
     Response (Num (100 * (int d1 - 48) + 10 * (int d2 - 48) + (int d3 - 48))) ([d1, d2, d3] @ body)"
proof -
  have b: "d2 # d3 # body = [] \<or> \<not> is_ws (last (d2 # d3 # body))"
    using assms(3,4) digit_not_ws by auto
  have "trim (d1 # (d2 # d3 # body) @ CRLF) = d1 # d2 # d3 # body"
    by (rule trim_reply [OF digit_not_ws [OF assms(1)] b])
  then have t: "trim ([d1, d2, d3] @ body @ CRLF) = d1 # d2 # d3 # body" by simp
  show ?thesis
    unfolding data_payload_def t
    by (simp add: substr_def Let_def parseInt_three_digits [OF assms(1,2,3)])
qed

lemmas string_defs =
  js_def CRLF_def trim_def is_ws_def substr_def parseInt_def is_digit_def digits_value_def
  to_double_small indexOf_def

text \<open>
  Claim C1, as the code has it. On every \<open>data\<close> event of the control socket (with the
  listeners its setter installs), the client logs the trimmed chunk and passes the chunk
  to \<open>_respond\<close> as one response of its own; it keeps nothing between chunks. When a chunk is
  exactly one reply (three digits, the rest of the reply, the final CRLF, with no white
  space right before that CRLF; the rest may hold the lines of a multi-line reply), the
  response has the three-digit number as code and the reply without its final CRLF as
  message.
\<close>

theorem one_response_per_chunk:
  assumes "socket c = Some s" and "listeners s = [L_error, L_timeout, L_data]"
    and "is_digit d1" "is_digit d2" "is_digit d3"
    and "body = [] \<or> \<not> is_ws (last body)"
  shows "step (Socket_data text) c =
       Client_respond (data_payload text) (Client_log (js ''< '' @ trim text) c)
    \<and> data_payload ([d1, d2, d3] @ body @ CRLF) =
       Response (Num (100 * (int d1 - 48) + 10 * (int d2 - 48) + (int d3 - 48)))
         ([d1, d2, d3] @ body)"
proof -
  have "emit (on_data text) [L_error, L_timeout, L_data] c = on_data text L_data c"
    by (cases "on_data text L_data c") (simp_all add: on_data_def)
  then have "step (Socket_data text) c =
       Client_respond (data_payload text) (Client_log (js ''< '' @ trim text) c)"
    using assms(1,2) by (simp add: on_data_L_data)
  then show ?thesis using data_payload_reply [OF assms(3-6)] by simp
qed

theorem one_response_per_chunk_witness:
  "step (Socket_data (js ''220 Ser'')) (new_Client None) =
     Client_respond (data_payload (js ''220 Ser''))
       (Client_log (js ''< '' @ trim (js ''220 Ser'')) (new_Client None))
   \<and> data_payload (js ''211-Features:'' @ CRLF @ js '' UTF8'' @ CRLF @ js '' MLST'' @ CRLF
       @ js ''211 End'' @ CRLF) =
     Response (Num 211) (js ''211-Features:'' @ CRLF @ js '' UTF8'' @ CRLF @ js '' MLST'' @ CRLF
       @ js ''211 End'')"
proof -
  have s: "socket (new_Client None) = Some \<lparr> timeout = Some 0, keepAlive = True,
      listeners = [L_error, L_timeout, L_data], written = [], destroyed = 0, secure = False,
      connectedTo = None, pipedIn = False, pipedOut = False \<rparr>"
    by (simp add: new_Client_def new_Socket_def Client_set_socket_def Client_set_dataSocket_def
        Client_setupSocket_def Let_def)
  have l: "listeners \<lparr> timeout = Some 0, keepAlive = True,
      listeners = [L_error, L_timeout, L_data], written = [], destroyed = 0, secure = False,
      connectedTo = None, pipedIn = False, pipedOut = False \<rparr> = [L_error, L_timeout, L_data]"
    by simp
  have d: "is_digit 50" "is_digit 49" by (simp_all add: is_digit_def)
  have b: "js ''-Features:'' @ CRLF @ js '' UTF8'' @ CRLF @ js '' MLST'' @ CRLF @ js ''211 End'' = []
      \<or> \<not> is_ws (last (js ''-Features:'' @ CRLF @ js '' UTF8'' @ CRLF @ js '' MLST'' @ CRLF
            @ js ''211 End''))"
    by (simp add: js_def CRLF_def is_ws_def)
  from one_response_per_chunk [OF s l d(1) d(2) d(2) b, of "js ''220 Ser''"]
  show ?thesis by (simp add: js_def CRLF_def)
qed

text \<open>
  A reply delivered in two chunks comes out as two responses, the second with the code
  \<open>NaN\<close>; two replies delivered in one chunk come out as one response.
\<close>

theorem chunked_reply_counterexample:
  "map data_payload [js ''220 Ser'', js ''vice ready'' @ CRLF] =
      [Response (Num 220) (js ''220 Ser''), Response NaN (js ''vice ready'')]
   \<and> map data_payload [js ''220 Ser'', js ''vice ready'' @ CRLF] \<noteq>
      [Response (Num 220) (js ''220 Service ready'')]
   \<and> map data_payload [js ''331 need password'' @ CRLF @ js ''230 logged in'' @ CRLF] =
      [Response (Num 331) (js ''331 need password'' @ CRLF @ js ''230 logged in'')]
   \<and> map data_payload [js ''331 need password'' @ CRLF @ js ''230 logged in'' @ CRLF] \<noteq>
      [Response (Num 331) (js ''331 need password''), Response (Num 230) (js ''230 logged in'')]"
  by (simp add: data_payload_def string_defs)

section \<open>Logging of commands\<close>







lemmas model_defs =
  new_Client_def new_Socket_def Client_set_socket_def Client_set_dataSocket_def
  Client_setupSocket_def Client_handle_def Client_send_def Client_log_def Client_close_def
  Client_closeSocket_def Client_respond_def Client_hasTLS_def
  connect_def send_def useTLS_def enterPassiveMode_def ftp_list_def upload_def download_def
  login_user_def login_pass_def
  connect_handler_def send_handler_def useTLS_handler_def enterPassiveMode_handler_def
  list_handler_def upload_handler_def download_handler_def
  task_resolve_def task_reject_def settle_def
  on_error_def on_timeout_def on_data_def on_end_def
  secureConnect_def dial_connect_def dial_error_def remove_nth_def
  task_pending_def handler_installed_def



section \<open>The timeout\<close>

text \<open>
  Claim C9, as the code has it. A client constructed without \<open>timeoutMillis\<close> has the
  timeout 0 (which \<open>setTimeout\<close> of a socket takes as no timeout); whatever the value, the
  setters pass that same value to \<open>setTimeout\<close> of the control socket and of the data socket
  when each is installed.
\<close>

theorem timeout_default_is_zero:
  "timeoutMillis (new_Client None) = 0
   \<and> timeoutMillis (new_Client (Some n)) = n
   \<and> map_option timeout (socket (new_Client arg)) = Some (Some (timeoutMillis (new_Client arg)))
   \<and> map_option timeout (socket (Client_set_socket (Some s) c)) = Some (Some (timeoutMillis c))
   \<and> map_option timeout (dataSocket (Client_set_dataSocket (Some s) c)) = Some (Some (timeoutMillis c))
   \<and> timeoutMillis (Client_set_socket x c) = timeoutMillis c
   \<and> timeoutMillis (Client_set_dataSocket x c) = timeoutMillis c"
  by (simp add: new_Client_def new_Socket_def Client_set_socket_def Client_set_dataSocket_def
      Client_setupSocket_def Let_def split: option.splits)

text \<open>The default is not 30000.\<close>

theorem timeout_default_counterexample:
  "timeoutMillis (new_Client None) \<noteq> 30000
   \<and> map_option timeout (socket (new_Client None)) = Some (Some 0)"
  by (simp add: new_Client_def new_Socket_def Client_set_socket_def Client_set_dataSocket_def
      Client_setupSocket_def Let_def)

section \<open>The dispatcher\<close>

lemma Client_handle_result:
  assumes "command = None \<or> socket c \<noteq> None"
  shows "\<exists>c'. Client_handle command h c = Ok (length (promises c)) c'
     \<and> handler c' = Some h \<and> task c' = Some (length (promises c))
     \<and> promises c' = promises c @ [Pending]
     \<and> dataSocket c' = dataSocket c \<and> map_option destroyed (socket c') = map_option destroyed (socket c)"
  using assms
  by (auto simp: Client_handle_def Client_send_def Client_log_def Let_def split: option.splits)

lemma state_of_Client_handle:
  assumes "command = None \<or> socket c \<noteq> None"
  shows "handler (state_of (Client_handle command h c)) = Some h"
    and "task (state_of (Client_handle command h c)) = Some (length (promises c))"
    and "promises (state_of (Client_handle command h c)) = promises c @ [Pending]"
    and "Client_handle command h c = Ok (length (promises c)) (state_of (Client_handle command h c))"
  using Client_handle_result [OF assms, of h] by auto

lemma after_connect:
  "state_of (connect (js ''h'') 21 (new_Client None)) =
     \<lparr> timeoutMillis = 0, task = Some 0, handler = Some H_connect, tlsOptions = Options None,
       verbose = False,
       socket = Some \<lparr> timeout = Some 0, keepAlive = True, listeners = [L_error, L_timeout, L_data],
         written = [], destroyed = 0, secure = False, connectedTo = Some (js ''h'', 21),
         pipedIn = False, pipedOut = False \<rparr>,
       dataSocket = None, promises = [Pending], console = [], listText = (\<lambda>t. []),
       upgrades = [], dials = [] \<rparr>"
  by (simp add: model_defs Let_def)

text \<open>
  Claim C2, as the code has it. Dispatching a second operation while a task is pending
  does not fail: \<open>handle\<close> returns a new pending promise and installs the new handler and
  the new task in place of the first. When \<open>handle\<close> returns, the first promise is still
  pending, but the handler installed is the new one: the next signal is passed to the new
  handler with the new task.
\<close>

theorem second_dispatch_replaces_first:
  assumes "handler c = Some h" and "task c = Some t"
    and "t < length (promises c)" and "promises c ! t = Pending"
    and "command = None \<or> socket c \<noteq> None"
  shows "Client_handle command h' c = Ok (length (promises c)) (state_of (Client_handle command h' c))
    \<and> promises (state_of (Client_handle command h' c)) = promises c @ [Pending]
    \<and> promises (state_of (Client_handle command h' c)) ! t = Pending
    \<and> handler (state_of (Client_handle command h' c)) = Some h'
    \<and> task (state_of (Client_handle command h' c)) = Some (length (promises c))
    \<and> task (state_of (Client_handle command h' c)) \<noteq> Some t
    \<and> Client_respond pl (state_of (Client_handle command h' c)) =
        run_handler h' pl (Some (length (promises c))) (state_of (Client_handle command h' c))"
  using assms state_of_Client_handle [OF assms(5), of h']
  by (auto simp: nth_append Client_respond_def)

theorem second_dispatch_replaces_first_witness:
  "Client_handle (Some (js ''NOOP'')) (H_send False) (state_of (connect (js ''h'') 21 (new_Client None)))
     = Ok 1 (state_of (Client_handle (Some (js ''NOOP'')) (H_send False)
          (state_of (connect (js ''h'') 21 (new_Client None)))))
   \<and> promises (state_of (Client_handle (Some (js ''NOOP'')) (H_send False)
          (state_of (connect (js ''h'') 21 (new_Client None))))) = [Pending, Pending]
   \<and> handler (state_of (Client_handle (Some (js ''NOOP'')) (H_send False)
          (state_of (connect (js ''h'') 21 (new_Client None))))) = Some (H_send False)"
proof -
  define C where "C = state_of (connect (js ''h'') 21 (new_Client None))"
  have f: "handler C = Some H_connect" "task C = Some 0" "0 < length (promises C)"
    "promises C ! 0 = Pending" "Some (js ''NOOP'') = None \<or> socket C \<noteq> None"
    and p: "promises C = [Pending]"
    unfolding C_def after_connect by simp_all
  from second_dispatch_replaces_first [OF f, of "H_send False"]
  show ?thesis unfolding C_def [symmetric] by (simp add: p)
qed

text \<open>
  A \<open>send\<close> dispatched while \<open>connect\<close> is pending is not rejected, and takes the handler:
  the greeting then resolves the \<open>send\<close>, while the promise of \<open>connect\<close> is still pending.
\<close>

theorem second_dispatch_counterexample:
  "promises (state_of (send (js ''NOOP'') False (state_of (connect (js ''h'') 21 (new_Client None)))))
     = [Pending, Pending]
   \<and> handler (state_of (send (js ''NOOP'') False (state_of (connect (js ''h'') 21 (new_Client None)))))
     = Some (H_send False)
   \<and> promises (state_of (run [Call_connect (js ''h'') 21, Call_send (js ''NOOP'') False,
        Socket_data (js ''220 Service ready'' @ CRLF)] (new_Client None)))
     = [Pending, Resolved (VNum (Num 220))]"
proof -
  have a: "promises (state_of (send (js ''NOOP'') False (state_of (connect (js ''h'') 21 (new_Client None)))))
     = [Pending, Pending]"
    unfolding after_connect by (simp add: model_defs string_defs Let_def)
  have b: "handler (state_of (send (js ''NOOP'') False (state_of (connect (js ''h'') 21 (new_Client None)))))
     = Some (H_send False)"
    unfolding after_connect by (simp add: model_defs string_defs Let_def)
  have c: "promises (state_of (run [Call_connect (js ''h'') 21, Call_send (js ''NOOP'') False,
        Socket_data (js ''220 Service ready'' @ CRLF)] (new_Client None)))
     = [Pending, Resolved (VNum (Num 220))]"
    by (simp add: model_defs string_defs Let_def)
  from a b c show ?thesis by simp
qed

lemma respond_connect:
  assumes "handler c = Some H_connect" and "task c = Some t"
    and "t < length (promises c)" and "promises c ! t = Pending"
  shows "Client_respond res c =
     Ok () (c\<lparr> handler := None,
               promises := (promises c)[t := (if js_eq (code res) 220 then Resolved Undefined
                                               else Rejected (VPayload res))] \<rparr>)"
  using assms
  by (simp add: Client_respond_def connect_handler_def task_resolve_def task_reject_def settle_def)

text \<open>
  Claim C8, as the code has it. After \<open>connect\<close>, a first reply with the code 220 resolves
  the promise with no value (\<open>undefined\<close>); any other first signal rejects the promise with
  that response.
\<close>

theorem connect_resolves_without_value:
  assumes "socket c \<noteq> None"
  shows "promises (state_of (Client_respond res (state_of (connect hostname portnum c)))) =
      promises c @ [if js_eq (code res) 220 then Resolved Undefined else Rejected (VPayload res)]
    \<and> handler (state_of (Client_respond res (state_of (connect hostname portnum c)))) = None"
proof -
  obtain s where s: "socket c = Some s" using assms by auto
  define c0 where "c0 = c\<lparr> socket := Some (s\<lparr> connectedTo := Some (hostname, portnum) \<rparr>) \<rparr>"
  define c1 where "c1 = state_of (Client_handle None H_connect c0)"
  have c1: "state_of (connect hostname portnum c) = c1"
    by (simp add: connect_def s c1_def c0_def)
  have p0: "promises c0 = promises c" by (simp add: c0_def)
  have h: "handler c1 = Some H_connect" "task c1 = Some (length (promises c))"
    "promises c1 = promises c @ [Pending]"
    unfolding c1_def using state_of_Client_handle [of None c0 H_connect] p0 by simp_all
  have "Client_respond res c1 =
     Ok () (c1\<lparr> handler := None,
               promises := (promises c1)[length (promises c) := (if js_eq (code res) 220 then Resolved Undefined
                                               else Rejected (VPayload res))] \<rparr>)"
    by (rule respond_connect [OF h(1) h(2)]) (simp_all add: h(3))
  then show ?thesis unfolding c1 by (simp add: h(3))
qed

theorem connect_resolves_without_value_witness:
  "socket (new_Client None) \<noteq> None
   \<and> promises (state_of (Client_respond (Response (Num 220) (js ''220 Service ready''))
        (state_of (connect (js ''h'') 21 (new_Client None))))) = [Resolved Undefined]
   \<and> promises (state_of (Client_respond (Response (Num 421) (js ''421 Busy''))
        (state_of (connect (js ''h'') 21 (new_Client None)))))
       = [Rejected (VPayload (Response (Num 421) (js ''421 Busy'')))]"
proof -
  have s: "socket (new_Client None) \<noteq> None" by (simp add: model_defs Let_def)
  have p: "promises (new_Client None) = []" by (simp add: model_defs Let_def)
  from connect_resolves_without_value [OF s, of "Response (Num 220) (js ''220 Service ready'')" "js ''h''" 21]
    connect_resolves_without_value [OF s, of "Response (Num 421) (js ''421 Busy'')" "js ''h''" 21]
  show ?thesis using s p by simp
qed

text \<open>The greeting \<open>220 Service ready\<close> resolves \<open>connect\<close> with \<open>undefined\<close>, not with the response.\<close>

theorem connect_resolves_counterexample:
  "promises (state_of (run [Call_connect (js ''h'') 21, Socket_data (js ''220 Service ready'' @ CRLF)]
      (new_Client None))) = [Resolved Undefined]
   \<and> promises (state_of (run [Call_connect (js ''h'') 21, Socket_data (js ''220 Service ready'' @ CRLF)]
      (new_Client None))) \<noteq> [Resolved (VPayload (Response (Num 220) (js ''220 Service ready'')))]"
  by (simp add: model_defs string_defs Let_def)

text \<open>
  Claim C3, as the code has it. \<open>close()\<close> calls \<open>destroy()\<close> on the control socket and on
  the data socket when there is one, at every call, and logs \<open>Closing sockets.\<close> when
  verbose. It leaves the task, the handler and the promises as they are: a pending task
  is not rejected, and an operation dispatched afterwards gets a pending promise and its
  handler installed, as before \<open>close()\<close>.
\<close>

theorem close_destroys_sockets_only:
  "task (Client_close c) = task c
   \<and> handler (Client_close c) = handler c
   \<and> promises (Client_close c) = promises c
   \<and> socket (Client_close c) = Client_closeSocket (socket c)
   \<and> dataSocket (Client_close c) = Client_closeSocket (dataSocket c)
   \<and> map_option destroyed (socket (Client_close c)) = map_option (\<lambda>s. Suc (destroyed s)) (socket c)
   \<and> map_option destroyed (dataSocket (Client_close c)) = map_option (\<lambda>s. Suc (destroyed s)) (dataSocket c)
   \<and> map_option destroyed (socket (Client_close (Client_close c))) =
       map_option (\<lambda>s. Suc (Suc (destroyed s))) (socket c)
   \<and> console (Client_close c) = (if verbose c then console c @ [js ''Closing sockets.''] else console c)
   \<and> (command = None \<or> socket c \<noteq> None \<longrightarrow>
        promises (state_of (Client_handle command h (Client_close c))) = promises c @ [Pending]
        \<and> handler (state_of (Client_handle command h (Client_close c))) = Some h)"
proof -
  have a: "task (Client_close c) = task c" "handler (Client_close c) = handler c"
    "promises (Client_close c) = promises c"
    "socket (Client_close c) = Client_closeSocket (socket c)"
    "dataSocket (Client_close c) = Client_closeSocket (dataSocket c)"
    "console (Client_close c) = (if verbose c then console c @ [js ''Closing sockets.''] else console c)"
    by (simp_all add: Client_close_def Client_log_def Let_def)
  have d: "map_option destroyed (Client_closeSocket x) = map_option (\<lambda>s. Suc (destroyed s)) x" for x
    by (cases x) (simp_all add: Client_closeSocket_def)
  have d2: "map_option destroyed (Client_closeSocket (Client_closeSocket x)) =
      map_option (\<lambda>s. Suc (Suc (destroyed s))) x" for x
    by (cases x) (simp_all add: Client_closeSocket_def)
  have n: "socket c \<noteq> None \<Longrightarrow> socket (Client_close c) \<noteq> None"
    by (cases "socket c") (simp_all add: a(4) Client_closeSocket_def)
  have e: "command = None \<or> socket c \<noteq> None \<Longrightarrow>
        promises (state_of (Client_handle command h (Client_close c))) = promises c @ [Pending]
        \<and> handler (state_of (Client_handle command h (Client_close c))) = Some h"
    using state_of_Client_handle [of command "Client_close c" h] n a(3) by auto
  have a4: "socket (Client_close (Client_close c)) = Client_closeSocket (Client_closeSocket (socket c))"
    by (simp add: Client_close_def Client_log_def Let_def)
  show ?thesis using a d d2 e a4 by simp
qed

theorem close_destroys_sockets_only_witness:
  "(Some (js ''NOOP'') = None \<or> socket (state_of (connect (js ''h'') 21 (new_Client None))) \<noteq> None)
   \<and> promises (state_of (Client_handle (Some (js ''NOOP'')) (H_send False)
        (Client_close (state_of (connect (js ''h'') 21 (new_Client None)))))) = [Pending, Pending]
   \<and> handler (state_of (Client_handle (Some (js ''NOOP'')) (H_send False)
        (Client_close (state_of (connect (js ''h'') 21 (new_Client None)))))) = Some (H_send False)
   \<and> map_option destroyed (socket (Client_close (state_of (connect (js ''h'') 21 (new_Client None)))))
       = Some 1"
proof -
  have s: "socket (state_of (connect (js ''h'') 21 (new_Client None))) =
      Some \<lparr> timeout = Some 0, keepAlive = True, listeners = [L_error, L_timeout, L_data],
         written = [], destroyed = 0, secure = False, connectedTo = Some (js ''h'', 21),
         pipedIn = False, pipedOut = False \<rparr>"
    and p: "promises (state_of (connect (js ''h'') 21 (new_Client None))) = [Pending]"
    unfolding after_connect by simp_all
  note th = close_destroys_sockets_only [of "state_of (connect (js ''h'') 21 (new_Client None))"
      "Some (js ''NOOP'')" "H_send False"]
  have ne: "socket (state_of (connect (js ''h'') 21 (new_Client None))) \<noteq> None"
    by (simp add: s)
  have 1: "map_option destroyed (socket (Client_close (state_of (connect (js ''h'') 21 (new_Client None)))))
       = Some 1"
    using th by (simp add: s Client_closeSocket_def)
  have 2: "promises (state_of (Client_handle (Some (js ''NOOP'')) (H_send False)
        (Client_close (state_of (connect (js ''h'') 21 (new_Client None)))))) = [Pending, Pending]"
    "handler (state_of (Client_handle (Some (js ''NOOP'')) (H_send False)
        (Client_close (state_of (connect (js ''h'') 21 (new_Client None)))))) = Some (H_send False)"
    using th ne p by simp_all
  from ne 1 2 show ?thesis by blast
qed

text \<open>
  \<open>close()\<close> while \<open>connect\<close> is pending leaves its promise pending and its handler
  installed, and a \<open>send\<close> after \<open>close()\<close> is pending too.
\<close>

theorem close_keeps_task_counterexample:
  "task_pending (state_of (connect (js ''h'') 21 (new_Client None)))
   \<and> promises (Client_close (state_of (connect (js ''h'') 21 (new_Client None)))) = [Pending]
   \<and> handler (Client_close (state_of (connect (js ''h'') 21 (new_Client None)))) = Some H_connect
   \<and> promises (state_of (run [Call_connect (js ''h'') 21, Call_close, Call_send (js ''NOOP'') False]
        (new_Client None))) = [Pending, Pending]"
proof -
  have a: "task_pending (state_of (connect (js ''h'') 21 (new_Client None)))"
    unfolding after_connect by (simp add: task_pending_def)
  have b: "promises (Client_close (state_of (connect (js ''h'') 21 (new_Client None)))) = [Pending]"
    "handler (Client_close (state_of (connect (js ''h'') 21 (new_Client None)))) = Some H_connect"
    unfolding after_connect by (simp_all add: model_defs Let_def)
  have c: "promises (state_of (run [Call_connect (js ''h'') 21, Call_close, Call_send (js ''NOOP'') False]
        (new_Client None))) = [Pending, Pending]"
    by (simp add: model_defs string_defs Let_def)
  from a b c show ?thesis by simp
qed

lemma inv_new_Client: "dispatcher_inv (new_Client arg)"
  by (simp add: dispatcher_inv_def handler_installed_def new_Client_def Client_set_socket_def
      Client_set_dataSocket_def Client_setupSocket_def new_Socket_def Let_def)

lemma inv_same:
  assumes "dispatcher_inv c" and "socket c \<noteq> None \<Longrightarrow> socket c' \<noteq> None"
    and "handler c' = handler c" and "task c' = task c" and "promises c' = promises c"
  shows "dispatcher_inv c'"
  using assms
  by (cases "task c") (simp_all add: dispatcher_inv_def handler_installed_def task_pending_def)

lemma inv_Client_log: "dispatcher_inv c \<Longrightarrow> dispatcher_inv (Client_log m c)"
  by (erule inv_same) (simp_all add: dispatcher_inv_def Client_log_def)

lemma inv_task_resolve: "dispatcher_inv c \<Longrightarrow> dispatcher_inv (state_of (task_resolve tk v c))"
  by (cases tk) (simp_all add: dispatcher_inv_def handler_installed_def task_resolve_def)

lemma inv_task_reject: "dispatcher_inv c \<Longrightarrow> dispatcher_inv (state_of (task_reject tk v c))"
  by (cases tk) (simp_all add: dispatcher_inv_def handler_installed_def task_reject_def)

lemma inv_Client_send: "dispatcher_inv c \<Longrightarrow> dispatcher_inv (state_of (Client_send cmd c))"
  by (erule inv_same)
    (auto simp: dispatcher_inv_def Client_send_def Client_log_def Let_def split: option.splits)

lemma inv_Client_handle: "dispatcher_inv c \<Longrightarrow> dispatcher_inv (state_of (Client_handle cmd h c))"
  by (auto simp: dispatcher_inv_def handler_installed_def task_pending_def Client_handle_def
      Client_send_def Client_log_def Let_def nth_append split: option.splits)

lemma inv_run_handler:
  assumes "dispatcher_inv c"
  shows "dispatcher_inv (state_of (run_handler h pl tk c))"
proof (cases h)
  case H_connect
  then show ?thesis using assms by (simp add: connect_handler_def inv_task_resolve inv_task_reject)
next
  case (H_send x)
  then show ?thesis using assms by (simp add: send_handler_def inv_task_resolve inv_task_reject)
next
  case (H_useTLS x)
  have "dispatcher_inv (c\<lparr> upgrades := upgrades c @ [(tk, x)] \<rparr>)"
    by (rule inv_same [OF assms]) (use assms in \<open>simp_all add: dispatcher_inv_def\<close>)
  then show ?thesis using H_useTLS assms by (simp add: useTLS_handler_def inv_task_reject)
next
  case (H_enterPassiveMode f)
  have "dispatcher_inv (c\<lparr> dials := dials c @ [(tk, tg)] \<rparr>)" for tg
    by (rule inv_same [OF assms]) (use assms in \<open>simp_all add: dispatcher_inv_def\<close>)
  then show ?thesis using H_enterPassiveMode assms
    by (simp add: enterPassiveMode_handler_def inv_task_reject split: option.splits)
next
  case H_list
  have "dispatcher_inv (c\<lparr> dataSocket := x \<rparr>)" for x
    by (rule inv_same [OF assms]) (use assms in \<open>simp_all add: dispatcher_inv_def\<close>)
  then show ?thesis using H_list assms
    by (simp add: list_handler_def inv_task_reject split: option.splits)
next
  case H_upload
  have "dispatcher_inv (c\<lparr> dataSocket := x \<rparr>)" for x
    by (rule inv_same [OF assms]) (use assms in \<open>simp_all add: dispatcher_inv_def\<close>)
  then show ?thesis using H_upload assms
    by (simp add: upload_handler_def inv_task_reject inv_task_resolve split: option.splits)
next
  case (H_download x)
  have "dispatcher_inv (c\<lparr> dataSocket := x \<rparr>)" for x
    by (rule inv_same [OF assms]) (use assms in \<open>simp_all add: dispatcher_inv_def\<close>)
  then show ?thesis using H_download assms
    by (simp add: download_handler_def inv_task_reject inv_task_resolve inv_Client_send
        split: option.splits)
qed

lemma inv_Client_respond: "dispatcher_inv c \<Longrightarrow> dispatcher_inv (state_of (Client_respond pl c))"
  by (simp add: Client_respond_def inv_run_handler split: option.splits)

lemma inv_emit:
  assumes "\<And>l c. dispatcher_inv c \<Longrightarrow> dispatcher_inv (state_of (f l c))"
  shows "dispatcher_inv c \<Longrightarrow> dispatcher_inv (state_of (emit f ls c))"
proof (induction ls arbitrary: c)
  case Nil
  then show ?case by simp
next
  case (Cons l ls)
  show ?case
  proof (cases "f l c")
    case (Ok u c')
    then have "dispatcher_inv c'" using assms [OF Cons.prems, of l] by simp
    then show ?thesis using Ok Cons.IH by simp
  next
    case (Throws e c')
    then show ?thesis using assms [OF Cons.prems, of l] by simp
  qed
qed

lemma inv_on_error: "dispatcher_inv c \<Longrightarrow> dispatcher_inv (state_of (on_error e l c))"
  by (cases l) (simp_all add: on_error_def inv_Client_respond)

lemma inv_on_timeout: "dispatcher_inv c \<Longrightarrow> dispatcher_inv (state_of (on_timeout l c))"
  by (cases l) (simp_all add: on_timeout_def inv_Client_respond)

lemma inv_on_data: "dispatcher_inv c \<Longrightarrow> dispatcher_inv (state_of (on_data text l c))"
proof (cases l)
  case (L_listData tk)
  assume a: "dispatcher_inv c"
  have "dispatcher_inv (c\<lparr> listText := x \<rparr>)" for x
    by (rule inv_same [OF a]) (use a in \<open>simp_all add: dispatcher_inv_def\<close>)
  then show ?thesis using L_listData by (simp add: on_data_def)
qed (simp_all add: on_data_def Let_def inv_Client_respond inv_Client_log)

lemma inv_on_end: "dispatcher_inv c \<Longrightarrow> dispatcher_inv (state_of (on_end l c))"
  by (cases l) (simp_all add: on_end_def Let_def inv_task_resolve inv_Client_log)

lemma inv_forget: "state_of (forget r) = state_of r"
  by (cases r) simp_all

lemma inv_Client_set_socket:
  "dispatcher_inv c \<Longrightarrow> dispatcher_inv (Client_set_socket (Some s) c)"
  by (erule inv_same) (simp_all add: Client_set_socket_def Client_setupSocket_def Let_def)

lemma inv_Client_set_dataSocket:
  "dispatcher_inv c \<Longrightarrow> dispatcher_inv (Client_set_dataSocket x c)"
  by (erule inv_same) (simp_all add: dispatcher_inv_def Client_set_dataSocket_def)

lemma inv_Client_close: "dispatcher_inv c \<Longrightarrow> dispatcher_inv (Client_close c)"
  by (erule inv_same)
    (auto simp: dispatcher_inv_def Client_close_def Client_closeSocket_def Client_log_def Let_def
      split: option.splits)

lemma inv_secureConnect:
  assumes "dispatcher_inv c"
  shows "dispatcher_inv (state_of (secureConnect i a e p c))"
proof (cases "length (upgrades c) \<le> i")
  case True
  then show ?thesis using assms by (simp add: secureConnect_def)
next
  case False
  obtain tk opts where u: "upgrades c ! i = (tk, opts)" by (cases "upgrades c ! i")
  have c1: "dispatcher_inv (c\<lparr> upgrades := x \<rparr>)" for x
    by (rule inv_same [OF assms]) (use assms in \<open>simp_all add: dispatcher_inv_def\<close>)
  have c4: "dispatcher_inv c' \<Longrightarrow> dispatcher_inv (c'\<lparr> tlsOptions := y \<rparr>)" for c' y
    by (erule inv_same) (simp_all add: dispatcher_inv_def)
  show ?thesis using False u
    by (simp add: secureConnect_def Let_def inv_task_reject inv_task_resolve c1 c4
        inv_Client_set_socket inv_Client_log)
qed

lemma inv_dial_connect:
  assumes "dispatcher_inv c"
  shows "dispatcher_inv (state_of (dial_connect i p c))"
proof (cases "length (dials c) \<le> i")
  case True
  then show ?thesis using assms by (simp add: dial_connect_def)
next
  case False
  obtain tk tg where u: "dials c ! i = (tk, tg)" by (cases "dials c ! i")
  have c1: "dispatcher_inv (c\<lparr> dials := x \<rparr>)" for x
    by (rule inv_same [OF assms]) (use assms in \<open>simp_all add: dispatcher_inv_def\<close>)
  show ?thesis using False u
    by (simp add: dial_connect_def Let_def inv_task_resolve c1
        inv_Client_set_dataSocket inv_Client_log)
qed

lemma inv_dial_error:
  assumes "dispatcher_inv c"
  shows "dispatcher_inv (state_of (dial_error i m c))"
proof (cases "length (dials c) \<le> i")
  case True
  then show ?thesis using assms by (simp add: dial_error_def)
next
  case False
  obtain tk tg where u: "dials c ! i = (tk, tg)" by (cases "dials c ! i")
  have c1: "dispatcher_inv (c\<lparr> dials := x \<rparr>)" for x
    by (rule inv_same [OF assms]) (use assms in \<open>simp_all add: dispatcher_inv_def\<close>)
  show ?thesis using False u
    by (simp add: dial_error_def Let_def inv_task_reject c1)
qed

lemma inv_step:
  assumes "dispatcher_inv c"
  shows "dispatcher_inv (state_of (step e c))"
proof (cases e)
  case (Call_connect h p)
  obtain s where s: "socket c = Some s" using assms by (auto simp: dispatcher_inv_def)
  have "dispatcher_inv (c\<lparr> socket := Some x \<rparr>)" for x
    by (rule inv_same [OF assms]) simp_all
  then show ?thesis using Call_connect s
    by (simp add: inv_forget connect_def inv_Client_handle)
next
  case Call_list
  have "dispatcher_inv (c\<lparr> listText := x \<rparr>)" for x
    by (rule inv_same [OF assms]) (use assms in \<open>simp_all add: dispatcher_inv_def\<close>)
  then show ?thesis using Call_list by (simp add: inv_forget ftp_list_def inv_Client_handle)
next
  case Data_end
  have "dispatcher_inv (c\<lparr> dataSocket := x \<rparr>)" for x
    by (rule inv_same [OF assms]) (use assms in \<open>simp_all add: dispatcher_inv_def\<close>)
  then show ?thesis using Data_end assms
    by (simp add: inv_emit [of on_end, OF inv_on_end] split: option.splits)
qed (use assms in \<open>simp_all add: inv_forget send_def useTLS_def enterPassiveMode_def upload_def
      download_def inv_Client_handle inv_Client_close inv_secureConnect inv_dial_connect
      inv_dial_error inv_emit [of "on_data _", OF inv_on_data]
      inv_emit [of "on_error _", OF inv_on_error] inv_emit [of on_timeout, OF inv_on_timeout]
      split: option.splits\<close>)

lemma inv_run: "dispatcher_inv c \<Longrightarrow> dispatcher_inv (state_of (run es c))"
proof (induction es arbitrary: c)
  case Nil
  then show ?case by simp
next
  case (Cons e es)
  show ?case
  proof (cases "step e c")
    case (Ok u c')
    then have "dispatcher_inv c'" using inv_step [OF Cons.prems, of e] by simp
    then show ?thesis using Ok Cons.IH by simp
  next
    case (Throws x c')
    then show ?thesis using inv_step [OF Cons.prems, of e] by simp
  qed
qed

text \<open>
  One half of the invariant holds in every session of a new client: whenever a handler
  is installed, the current task is pending.
\<close>

lemma handler_only_while_pending:
  "handler_installed (state_of (run es (new_Client arg))) \<longrightarrow>
     task_pending (state_of (run es (new_Client arg)))"
  using inv_run [OF inv_new_Client, of es arg] by (simp add: dispatcher_inv_def)

lemma pasv_local:
  "parseIPV4PasvResponse (js ''227 Entering Passive Mode (127,0,0,1,4,1)'') =
     Some \<lparr> host = js ''127.0.0.1'', port = 1025 \<rparr>"
  by (simp add: js_def parseIPV4PasvResponse_def match_here_def cls_plus_def lit_def
        in_class_def is_digit_def replace_commas_def and255_def ToInt32_def parseInt_def
        is_ws_def digits_value_def to_double_small int_and_255)

lemma task_resolve_detaches:
  "task_resolve (Some t) v c = Ok () c' \<Longrightarrow> handler c' = None"
  by (auto simp: task_resolve_def)

lemma task_reject_detaches:
  "task_reject (Some t) v c = Ok () c' \<Longrightarrow> handler c' = None"
  by (auto simp: task_reject_def)

lemma settle_once: "t < length ps \<Longrightarrow> ps ! t \<noteq> Pending \<Longrightarrow> settle t r ps = ps"
  by (simp add: settle_def)

text \<open>
  Claim C4 at the session \<open>aborted_list\<close>. When the 426 rejects the task of \<open>list\<close>, the
  listener that its handler put on the data socket at the 150 stays there. Before the
  data connection ends, the task of \<open>NOOP\<close> is pending and its handler installed; when it
  ends, that listener calls \<open>resolve\<close> of the task of \<open>list\<close>, which sets \<open>_handler\<close> to
  \<open>undefined\<close>: the task of \<open>NOOP\<close> is pending with no handler installed, and the reply to
  \<open>NOOP\<close> is dropped.
\<close>

theorem stale_resolve_detaches_new_handler:
  "task_pending (state_of (run aborted_list (new_Client None)))
   \<and> handler_installed (state_of (run aborted_list (new_Client None)))
   \<and> task_pending (state_of (run (aborted_list @ [Data_end]) (new_Client None)))
   \<and> \<not> handler_installed (state_of (run (aborted_list @ [Data_end]) (new_Client None)))
   \<and> promises (state_of (run (aborted_list @ [Data_end, Socket_data (js ''200 NOOP ok'' @ CRLF)])
        (new_Client None))) =
      [Resolved Undefined, Resolved Undefined,
       Rejected (VPayload (Response (Num 426) (js ''426 Transfer aborted''))), Pending]"
  unfolding aborted_list_def
  by (simp add: model_defs string_defs Let_def pasv_local [unfolded js_def, simplified])

section \<open>Timeouts\<close>

lemma respond_no_handler: "handler c = None \<Longrightarrow> Client_respond pl c = Ok () c"
  by (simp add: Client_respond_def)

lemma emit_on_timeout_idle: "handler c = None \<Longrightarrow> emit on_timeout ls c = Ok () c"
proof (induction ls)
  case Nil
  then show ?case by simp
next
  case (Cons l ls)
  have "on_timeout l c = Ok () c"
    using Cons.prems by (cases l) (simp_all add: on_timeout_def respond_no_handler)
  then show ?case using Cons by simp
qed

lemma emit_on_timeout_first:
  assumes "Client_respond (Failure (ErrString (js ''Timeout''))) c = Ok () c'" and "handler c' = None"
  shows "L_timeout \<in> set ls \<Longrightarrow> emit on_timeout ls c = Ok () c'"
proof (induction ls)
  case Nil
  then show ?case by simp
next
  case (Cons l ls)
  show ?case
  proof (cases "l = L_timeout")
    case True
    then have "on_timeout l c = Ok () c'" using assms(1) by (simp add: on_timeout_def)
    then show ?thesis using assms(2) by (simp add: emit_on_timeout_idle)
  next
    case False
    then have "on_timeout l c = Ok () c" by (cases l) (simp_all add: on_timeout_def)
    then show ?thesis using Cons False by simp
  qed
qed

lemma respond_timeout:
  assumes "handler c = Some h" and "task c = Some t"
    and "t < length (promises c)" and "promises c ! t = Pending"
  shows "Client_respond (Failure (ErrString (js ''Timeout''))) c =
     Ok () (c\<lparr> handler := None,
               promises := (promises c)[t := Rejected (VPayload (Failure (ErrString (js ''Timeout''))))] \<rparr>)"
proof -
  have ne: "js ''Timeout'' \<noteq> []" by (simp add: js_def)
  show ?thesis
    using assms ne
    by (cases h) (simp_all add: Client_respond_def connect_handler_def send_handler_def
        useTLS_handler_def enterPassiveMode_handler_def list_handler_def upload_handler_def
        download_handler_def task_reject_def settle_def)
qed

text \<open>
  Every socket of a client has the listeners of \<open>_setupSocket\<close>, in every session of a new
  client: the setters put them on each socket they install, and nothing takes a listener
  off an installed socket but the \<open>once\<close> of \<open>list\<close>.
\<close>

lemma emit_preserves:
  assumes "\<And>l c. P c \<Longrightarrow> P (state_of (f l c))"
  shows "P c \<Longrightarrow> P (state_of (emit f ls c))"
proof (induction ls arbitrary: c)
  case Nil
  then show ?case by simp
next
  case (Cons l ls)
  show ?case
  proof (cases "f l c")
    case (Ok u c')
    then have "P c'" using assms [OF Cons.prems, of l] by simp
    then show ?thesis using Ok Cons.IH by simp
  next
    case (Throws e c')
    then show ?thesis using assms [OF Cons.prems, of l] by simp
  qed
qed

lemma wired_setupSocket: "wired (Client_setupSocket x old c)"
  by (cases x) (simp_all add: wired_def Client_setupSocket_def)

lemma sw_new_Client: "sockets_wired (new_Client arg)"
  by (simp add: sockets_wired_def wired_def new_Client_def Client_set_socket_def
      Client_set_dataSocket_def Client_setupSocket_def new_Socket_def Let_def)

lemma sw_same:
  assumes "sockets_wired c" and "socket c' = socket c" and "dataSocket c' = dataSocket c"
  shows "sockets_wired c'"
  using assms by (simp add: sockets_wired_def)

lemma sw_Client_log: "sockets_wired c \<Longrightarrow> sockets_wired (Client_log m c)"
  by (erule sw_same) (simp_all add: Client_log_def)

lemma sw_task_resolve: "sockets_wired c \<Longrightarrow> sockets_wired (state_of (task_resolve tk v c))"
  by (cases tk) (simp_all add: sockets_wired_def task_resolve_def)

lemma sw_task_reject: "sockets_wired c \<Longrightarrow> sockets_wired (state_of (task_reject tk v c))"
  by (cases tk) (simp_all add: sockets_wired_def task_reject_def)

lemma sw_Client_send: "sockets_wired c \<Longrightarrow> sockets_wired (state_of (Client_send cmd c))"
  by (auto simp: sockets_wired_def wired_def Client_send_def Client_log_def Let_def
      split: option.splits)

lemma sw_Client_handle: "sockets_wired c \<Longrightarrow> sockets_wired (state_of (Client_handle cmd h c))"
proof -
  assume a: "sockets_wired c"
  define c1 where "c1 = c\<lparr> promises := promises c @ [Pending], handler := Some h,
      task := Some (length (promises c)) \<rparr>"
  have c1: "sockets_wired c1" by (rule sw_same [OF a]) (simp_all add: c1_def)
  show ?thesis
  proof (cases cmd)
    case None
    then show ?thesis using c1 by (simp add: Client_handle_def Let_def c1_def)
  next
    case (Some x)
    have "sockets_wired (state_of (Client_send x c1))" by (rule sw_Client_send [OF c1])
    then show ?thesis using Some
      by (cases "Client_send x c1")
        (simp_all add: Client_handle_def Let_def c1_def sockets_wired_def)
  qed
qed

lemma sw_dataSocket_more:
  assumes "sockets_wired c" and "dataSocket c = Some d" and "set (listeners d) \<subseteq> set (listeners d')"
  shows "sockets_wired (c\<lparr> dataSocket := Some d' \<rparr>)"
  using assms by (auto simp: sockets_wired_def wired_def)

lemma sw_run_handler:
  assumes "sockets_wired c"
  shows "sockets_wired (state_of (run_handler h pl tk c))"
proof (cases h)
  case H_connect
  then show ?thesis using assms by (simp add: connect_handler_def sw_task_resolve sw_task_reject)
next
  case (H_send x)
  then show ?thesis using assms by (simp add: send_handler_def sw_task_resolve sw_task_reject)
next
  case (H_useTLS x)
  have "sockets_wired (c\<lparr> upgrades := y \<rparr>)" for y
    by (rule sw_same [OF assms]) simp_all
  then show ?thesis using H_useTLS assms by (simp add: useTLS_handler_def sw_task_reject)
next
  case (H_enterPassiveMode f)
  have "sockets_wired (c\<lparr> dials := y \<rparr>)" for y
    by (rule sw_same [OF assms]) simp_all
  then show ?thesis using H_enterPassiveMode assms
    by (simp add: enterPassiveMode_handler_def sw_task_reject split: option.splits)
next
  case H_list
  then show ?thesis using assms
    by (auto simp: list_handler_def sw_task_reject intro: sw_dataSocket_more split: option.splits)
next
  case H_upload
  then show ?thesis using assms
    by (auto simp: upload_handler_def sw_task_reject sw_task_resolve intro: sw_dataSocket_more
        split: option.splits)
next
  case (H_download x)
  then show ?thesis using assms
    by (auto simp: download_handler_def sw_task_reject sw_task_resolve sw_Client_send
        intro: sw_dataSocket_more split: option.splits)
qed

lemma sw_Client_respond: "sockets_wired c \<Longrightarrow> sockets_wired (state_of (Client_respond pl c))"
  by (simp add: Client_respond_def sw_run_handler split: option.splits)

lemma sw_on_error: "sockets_wired c \<Longrightarrow> sockets_wired (state_of (on_error e l c))"
  by (cases l) (simp_all add: on_error_def sw_Client_respond)

lemma sw_on_timeout: "sockets_wired c \<Longrightarrow> sockets_wired (state_of (on_timeout l c))"
  by (cases l) (simp_all add: on_timeout_def sw_Client_respond)

lemma sw_on_data: "sockets_wired c \<Longrightarrow> sockets_wired (state_of (on_data text l c))"
proof (cases l)
  case (L_listData tk)
  assume a: "sockets_wired c"
  have "sockets_wired (c\<lparr> listText := x \<rparr>)" for x
    by (rule sw_same [OF a]) simp_all
  then show ?thesis using L_listData by (simp add: on_data_def)
qed (simp_all add: on_data_def Let_def sw_Client_respond sw_Client_log)

lemma sw_on_end: "sockets_wired c \<Longrightarrow> sockets_wired (state_of (on_end l c))"
  by (cases l) (simp_all add: on_end_def Let_def sw_task_resolve sw_Client_log)

lemma sw_Client_set_socket: "sockets_wired c \<Longrightarrow> sockets_wired (Client_set_socket x c)"
  by (cases x)
    (simp_all add: sockets_wired_def wired_def Client_set_socket_def Client_setupSocket_def Let_def)

lemma sw_Client_set_dataSocket: "sockets_wired c \<Longrightarrow> sockets_wired (Client_set_dataSocket x c)"
  by (simp add: sockets_wired_def Client_set_dataSocket_def wired_setupSocket)

lemma sw_Client_close: "sockets_wired c \<Longrightarrow> sockets_wired (Client_close c)"
  by (auto simp: sockets_wired_def wired_def Client_close_def Client_closeSocket_def
      Client_log_def Let_def split: option.splits)

lemma sw_secureConnect:
  assumes "sockets_wired c"
  shows "sockets_wired (state_of (secureConnect i a e p c))"
proof (cases "length (upgrades c) \<le> i")
  case True
  then show ?thesis using assms by (simp add: secureConnect_def)
next
  case False
  obtain tk opts where u: "upgrades c ! i = (tk, opts)" by (cases "upgrades c ! i")
  have c1: "sockets_wired (c\<lparr> upgrades := x \<rparr>)" for x
    by (rule sw_same [OF assms]) simp_all
  have c4: "sockets_wired c' \<Longrightarrow> sockets_wired (c'\<lparr> tlsOptions := y \<rparr>)" for c' y
    by (erule sw_same) simp_all
  show ?thesis using False u
    by (simp add: secureConnect_def Let_def sw_task_reject sw_task_resolve c1 c4
        sw_Client_set_socket sw_Client_log)
qed

lemma sw_dial_connect:
  assumes "sockets_wired c"
  shows "sockets_wired (state_of (dial_connect i p c))"
proof (cases "length (dials c) \<le> i")
  case True
  then show ?thesis using assms by (simp add: dial_connect_def)
next
  case False
  obtain tk tg where u: "dials c ! i = (tk, tg)" by (cases "dials c ! i")
  have c1: "sockets_wired (c\<lparr> dials := x \<rparr>)" for x
    by (rule sw_same [OF assms]) simp_all
  show ?thesis using False u
    by (simp add: dial_connect_def Let_def sw_task_resolve c1
        sw_Client_set_dataSocket sw_Client_log)
qed

lemma sw_dial_error:
  assumes "sockets_wired c"
  shows "sockets_wired (state_of (dial_error i m c))"
proof (cases "length (dials c) \<le> i")
  case True
  then show ?thesis using assms by (simp add: dial_error_def)
next
  case False
  obtain tk tg where u: "dials c ! i = (tk, tg)" by (cases "dials c ! i")
  have c1: "sockets_wired (c\<lparr> dials := x \<rparr>)" for x
    by (rule sw_same [OF assms]) simp_all
  show ?thesis using False u
    by (simp add: dial_error_def Let_def sw_task_reject c1)
qed

lemma sw_step:
  assumes "sockets_wired c"
  shows "sockets_wired (state_of (step e c))"
proof (cases e)
  case (Call_connect h p)
  show ?thesis
  proof (cases "socket c")
    case None
    then show ?thesis using Call_connect assms by (simp add: connect_def)
  next
    case (Some s)
    have "sockets_wired (c\<lparr> socket := Some (s\<lparr> connectedTo := Some (h, p) \<rparr>) \<rparr>)"
      using assms Some by (simp add: sockets_wired_def wired_def)
    then show ?thesis using Call_connect Some
      by (simp add: inv_forget connect_def sw_Client_handle)
  qed
next
  case Call_list
  have "sockets_wired (c\<lparr> listText := x \<rparr>)" for x
    by (rule sw_same [OF assms]) simp_all
  then show ?thesis using Call_list by (simp add: inv_forget ftp_list_def sw_Client_handle)
next
  case Data_end
  show ?thesis
  proof (cases "dataSocket c")
    case None
    then show ?thesis using Data_end assms by simp
  next
    case (Some d)
    have "sockets_wired (c\<lparr> dataSocket := Some (d\<lparr> listeners := filter (\<lambda>l. \<not> is_once l) (listeners d) \<rparr>) \<rparr>)"
      using assms Some by (simp add: sockets_wired_def wired_def)
    then show ?thesis using Data_end Some
      by (simp add: emit_preserves [of sockets_wired on_end, OF sw_on_end])
  qed
qed (use assms in \<open>simp_all add: inv_forget send_def useTLS_def enterPassiveMode_def upload_def
      download_def sw_Client_handle sw_Client_close sw_secureConnect sw_dial_connect
      sw_dial_error emit_preserves [of sockets_wired "on_data _", OF sw_on_data]
      emit_preserves [of sockets_wired "on_error _", OF sw_on_error]
      emit_preserves [of sockets_wired on_timeout, OF sw_on_timeout]
      split: option.splits\<close>)

lemma sw_run: "sockets_wired c \<Longrightarrow> sockets_wired (state_of (run es c))"
proof (induction es arbitrary: c)
  case Nil
  then show ?case by simp
next
  case (Cons e es)
  show ?case
  proof (cases "step e c")
    case (Ok u c')
    then have "sockets_wired c'" using sw_step [OF Cons.prems, of e] by simp
    then show ?thesis using Ok Cons.IH by simp
  next
    case (Throws x c')
    then show ?thesis using sw_step [OF Cons.prems, of e] by simp
  qed
qed

lemma sw_start: "sockets_wired ((new_Client arg)\<lparr> verbose := v \<rparr>)"
  by (rule sw_same [OF sw_new_Client]) simp_all

lemma inv_start: "dispatcher_inv ((new_Client arg)\<lparr> verbose := v \<rparr>)"
  by (rule inv_same [OF inv_new_Client]) simp_all

lemma timeout_listener_installed:
  assumes "c = state_of (run es ((new_Client arg)\<lparr> verbose := v \<rparr>))"
  shows "\<exists>s. socket c = Some s \<and> L_timeout \<in> set (listeners s)"
    and "dataSocket c = Some d \<Longrightarrow> L_timeout \<in> set (listeners d)"
proof -
  have w: "sockets_wired c" unfolding assms by (rule sw_run [OF sw_start])
  have i: "dispatcher_inv c" unfolding assms by (rule inv_run [OF inv_start])
  from i obtain s where s: "socket c = Some s" by (auto simp: dispatcher_inv_def)
  with w show "\<exists>s. socket c = Some s \<and> L_timeout \<in> set (listeners s)"
    by (simp add: sockets_wired_def wired_def)
  show "dataSocket c = Some d \<Longrightarrow> L_timeout \<in> set (listeners d)"
    using w by (simp add: sockets_wired_def wired_def)
qed

text \<open>
  Claim C6, as the code has it. In every session of a new client (verbose or not), while
  a handler of one of the module's operations is installed, its task is pending, and a
  timeout event of the control socket, or of the data socket when there is one, rejects
  that task with \<open>{error: "Timeout"}\<close> and detaches the handler. Nothing else changes:
  the sockets are not destroyed, and an operation dispatched afterwards gets a pending
  promise and its handler installed.
\<close>

theorem timeout_rejects_and_stays_open:
  assumes "c = state_of (run es ((new_Client arg)\<lparr> verbose := v \<rparr>))"
    and "handler c = Some h" and "task c = Some t"
    and "ev = Socket_timeout \<or> (ev = Data_timeout \<and> dataSocket c \<noteq> None)"
  shows "t < length (promises c) \<and> promises c ! t = Pending
    \<and> step ev c =
        Ok () (c\<lparr> handler := None,
                  promises := (promises c)[t := Rejected (VPayload (Failure (ErrString (js ''Timeout''))))] \<rparr>)
    \<and> socket (state_of (step ev c)) = socket c
    \<and> dataSocket (state_of (step ev c)) = dataSocket c
    \<and> promises (state_of (Client_handle command h' (state_of (step ev c)))) =
        (promises c)[t := Rejected (VPayload (Failure (ErrString (js ''Timeout''))))] @ [Pending]
    \<and> handler (state_of (Client_handle command h' (state_of (step ev c)))) = Some h'"
proof -
  define c' where "c' = c\<lparr> handler := None,
      promises := (promises c)[t := Rejected (VPayload (Failure (ErrString (js ''Timeout''))))] \<rparr>"
  have "dispatcher_inv c" unfolding assms(1) by (rule inv_run [OF inv_start])
  then have p: "t < length (promises c)" "promises c ! t = Pending" and so: "socket c \<noteq> None"
    using assms(2,3) by (simp_all add: dispatcher_inv_def handler_installed_def task_pending_def)
  have r: "Client_respond (Failure (ErrString (js ''Timeout''))) c = Ok () c'"
    unfolding c'_def by (rule respond_timeout [OF assms(2,3) p])
  have h: "handler c' = None" by (simp add: c'_def)
  obtain s where s: "socket c = Some s" "L_timeout \<in> set (listeners s)"
    using timeout_listener_installed(1) [OF assms(1)] by auto
  have st: "step ev c = Ok () c'"
  proof (cases "ev = Socket_timeout")
    case True
    then show ?thesis using s emit_on_timeout_first [OF r h s(2)] by simp
  next
    case False
    then obtain d where d: "ev = Data_timeout" "dataSocket c = Some d" using assms(4) by auto
    have "L_timeout \<in> set (listeners d)"
      by (rule timeout_listener_installed(2) [OF assms(1) d(2)])
    then show ?thesis using d emit_on_timeout_first [OF r h] by simp
  qed
  have so': "socket c' \<noteq> None" using so by (simp add: c'_def)
  have d: "promises (state_of (Client_handle command h' c')) = promises c' @ [Pending]"
    "handler (state_of (Client_handle command h' c')) = Some h'"
    using state_of_Client_handle [of command c' h'] so' by auto
  show ?thesis using p st d by (simp add: c'_def)
qed

lemma list_pending_state:
  "handler (state_of (run list_pending ((new_Client None)\<lparr> verbose := True \<rparr>))) = Some H_list"
  "task (state_of (run list_pending ((new_Client None)\<lparr> verbose := True \<rparr>))) = Some 2"
  "promises (state_of (run list_pending ((new_Client None)\<lparr> verbose := True \<rparr>))) =
     [Resolved Undefined, Resolved Undefined, Pending]"
  "map_option listeners (dataSocket (state_of (run list_pending ((new_Client None)\<lparr> verbose := True \<rparr>)))) =
     Some [L_error, L_timeout]"
  unfolding list_pending_def
  by (simp_all add: model_defs string_defs Let_def pasv_local [unfolded js_def, simplified])

theorem timeout_rejects_and_stays_open_witness:
  "handler (state_of (run list_pending ((new_Client None)\<lparr> verbose := True \<rparr>))) = Some H_list
   \<and> task (state_of (run list_pending ((new_Client None)\<lparr> verbose := True \<rparr>))) = Some 2
   \<and> dataSocket (state_of (run list_pending ((new_Client None)\<lparr> verbose := True \<rparr>))) \<noteq> None
   \<and> promises (state_of (step Data_timeout (state_of (run list_pending ((new_Client None)\<lparr> verbose := True \<rparr>))))) =
       [Resolved Undefined, Resolved Undefined,
        Rejected (VPayload (Failure (ErrString (js ''Timeout''))))]
   \<and> promises (state_of (step Socket_timeout (state_of (run list_pending ((new_Client None)\<lparr> verbose := True \<rparr>))))) =
       [Resolved Undefined, Resolved Undefined,
        Rejected (VPayload (Failure (ErrString (js ''Timeout''))))]
   \<and> promises (state_of (Client_handle (Some (js ''NOOP'')) (H_send False)
        (state_of (step Data_timeout (state_of (run list_pending ((new_Client None)\<lparr> verbose := True \<rparr>))))))) =
       [Resolved Undefined, Resolved Undefined,
        Rejected (VPayload (Failure (ErrString (js ''Timeout'')))), Pending]"
proof -
  define C where "C = state_of (run list_pending ((new_Client None)\<lparr> verbose := True \<rparr>))"
  have f: "handler C = Some H_list" "task C = Some 2"
    "promises C = [Resolved Undefined, Resolved Undefined, Pending]"
    and l: "map_option listeners (dataSocket C) = Some [L_error, L_timeout]"
    unfolding C_def by (rule list_pending_state)+
  have d: "dataSocket C \<noteq> None" using l by auto
  have e1: "Data_timeout = Socket_timeout \<or> (Data_timeout = Data_timeout \<and> dataSocket C \<noteq> None)"
    using d by simp
  have e2: "Socket_timeout = Socket_timeout \<or> (Socket_timeout = Data_timeout \<and> dataSocket C \<noteq> None)"
    by simp
  note t1 = timeout_rejects_and_stays_open [OF C_def f(1) f(2) e1, of "Some (js ''NOOP'')" "H_send False"]
  note t2 = timeout_rejects_and_stays_open [OF C_def f(1) f(2) e2, of "Some (js ''NOOP'')" "H_send False"]
  have "promises (state_of (step Data_timeout C)) =
       [Resolved Undefined, Resolved Undefined,
        Rejected (VPayload (Failure (ErrString (js ''Timeout''))))]"
    using t1 by (simp add: f(3) del: step.simps)
  moreover have "promises (state_of (step Socket_timeout C)) =
       [Resolved Undefined, Resolved Undefined,
        Rejected (VPayload (Failure (ErrString (js ''Timeout''))))]"
    using t2 by (simp add: f(3) del: step.simps)
  moreover have "promises (state_of (Client_handle (Some (js ''NOOP'')) (H_send False)
        (state_of (step Data_timeout C)))) =
       [Resolved Undefined, Resolved Undefined,
        Rejected (VPayload (Failure (ErrString (js ''Timeout'')))), Pending]"
  proof -
    have "promises (state_of (Client_handle (Some (js ''NOOP'')) (H_send False)
        (state_of (step Data_timeout C)))) =
        (promises C)[2 := Rejected (VPayload (Failure (ErrString (js ''Timeout''))))] @ [Pending]"
      using t1 by blast
    then show ?thesis by (simp add: f(3) del: step.simps)
  qed
  ultimately show ?thesis using f(1) f(2) d unfolding C_def by blast
qed

text \<open>
  After a timeout of the control socket during \<open>connect\<close>, and after a timeout of the
  data socket during \<open>list\<close>, a \<open>send\<close> is pending with its handler installed, and no
  socket has been destroyed.
\<close>

theorem timeout_not_closed_counterexample:
  "promises (state_of (run [Call_connect (js ''h'') 21, Socket_timeout, Call_send (js ''NOOP'') False]
      (new_Client None)))
     = [Rejected (VPayload (Failure (ErrString (js ''Timeout'')))), Pending]
   \<and> handler (state_of (run [Call_connect (js ''h'') 21, Socket_timeout, Call_send (js ''NOOP'') False]
      (new_Client None))) = Some (H_send False)
   \<and> map_option destroyed (socket (state_of (run [Call_connect (js ''h'') 21, Socket_timeout,
      Call_send (js ''NOOP'') False] (new_Client None)))) = Some 0
   \<and> promises (state_of (run (list_pending @ [Data_timeout, Call_send (js ''NOOP'') False])
      (new_Client None)))
     = [Resolved Undefined, Resolved Undefined,
        Rejected (VPayload (Failure (ErrString (js ''Timeout'')))), Pending]
   \<and> handler (state_of (run (list_pending @ [Data_timeout, Call_send (js ''NOOP'') False])
      (new_Client None))) = Some (H_send False)
   \<and> map_option destroyed (socket (state_of (run (list_pending @ [Data_timeout,
      Call_send (js ''NOOP'') False]) (new_Client None)))) = Some 0
   \<and> map_option destroyed (dataSocket (state_of (run (list_pending @ [Data_timeout,
      Call_send (js ''NOOP'') False]) (new_Client None)))) = Some 0"
  unfolding list_pending_def
  by (simp add: model_defs string_defs Let_def pasv_local [unfolded js_def, simplified])

end
